theory Spec2Isabelle
  imports Main
begin

section \<open>Entities\<close>

text \<open>
  The classes \<^verbatim>\<open>Project\<close> and \<^verbatim>\<open>Task\<close> of \<^verbatim>\<open>script.js\<close> as records. Both
  classes have fields called \<^verbatim>\<open>id\<close>, \<^verbatim>\<open>name\<close>, \<^verbatim>\<open>status\<close>, ..., so the
  fields of a task carry the prefix \<open>t_\<close> and those of a project the prefix \<open>p_\<close>.
  Text fields are strings. \<^verbatim>\<open>dueDate\<close> and \<^verbatim>\<open>deadline\<close> are \<open>None\<close> for
  \<^verbatim>\<open>null\<close>/\<^verbatim>\<open>undefined\<close> and \<open>Some s\<close> for a string (an empty form field gives
  \<open>Some []\<close>). Timestamps are time values (milliseconds since the epoch).
\<close>

record task =
  t_id :: string
  t_projectId :: string
  t_name :: string
  t_description :: string
  t_status :: string
  t_priority :: string
  t_dueDate :: "string option"
  t_assignee :: string
  t_completed :: bool
  t_createdAt :: int

record project =
  p_id :: string
  p_name :: string
  p_description :: string
  p_status :: string
  p_priority :: string
  p_deadline :: "string option"
  p_createdAt :: int
  p_tasks :: "task list"

text \<open>
  The constructor of \<^verbatim>\<open>Task\<close>; \<open>createdAt\<close> is the clock reading of
  \<^verbatim>\<open>new Date()\<close> inside the constructor.
\<close>

definition Task ::
  "string \<Rightarrow> string \<Rightarrow> string \<Rightarrow> string \<Rightarrow> string \<Rightarrow> string \<Rightarrow> string option \<Rightarrow> string
    \<Rightarrow> int \<Rightarrow> task" where
  "Task ident projectId name description status priority dueDate assignee createdAt =
     \<lparr>t_id = ident, t_projectId = projectId, t_name = name, t_description = description,
      t_status = status, t_priority = priority, t_dueDate = dueDate, t_assignee = assignee,
      t_completed = (status = ''Done''), t_createdAt = createdAt\<rparr>"

text \<open>The constructor of \<^verbatim>\<open>Project\<close>: the task list starts empty.\<close>

definition Project ::
  "string \<Rightarrow> string \<Rightarrow> string \<Rightarrow> string \<Rightarrow> string \<Rightarrow> string option \<Rightarrow> int \<Rightarrow> project" where
  "Project ident name description status priority deadline createdAt =
     \<lparr>p_id = ident, p_name = name, p_description = description, p_status = status,
      p_priority = priority, p_deadline = deadline, p_createdAt = createdAt, p_tasks = []\<rparr>"

text \<open>
  \<^verbatim>\<open>Project.getProgress\<close> computes \<^verbatim>\<open>Math.round((completed / this.tasks.length) * 100)\<close>
  on JavaScript numbers, which are IEEE 754 doubles. A finite non-negative double is
  represented by the fraction it denotes, a pair (numerator, denominator) with a positive
  denominator. \<open>roundToDouble\<close> maps a positive fraction to the nearest double (53
  significant bits, ties to the even significand); it covers the normal range, which
  quotients and products of array lengths never leave. \<open>binade p q\<close> is the exponent
  \<open>e\<close> with \<open>2 ^ e \<le> p / q < 2 ^ (e + 1)\<close>.
\<close>

function bitLength :: "int \<Rightarrow> int" where
  "bitLength n = (if n \<le> 0 then 0 else 1 + bitLength (n div 2))"
  by pat_completeness auto
termination
  by (relation "measure nat") auto

definition binade :: "int \<Rightarrow> int \<Rightarrow> int" where
  "binade p q =
     (let k = bitLength p - bitLength q
      in if q * 2 ^ nat k \<le> p * 2 ^ nat (- k) then k else k - 1)"

definition round_half_even :: "int \<Rightarrow> int \<Rightarrow> int" where
  "round_half_even p q =
     (let f = p div q; r = p mod q
      in if 2 * r < q then f else if q < 2 * r then f + 1 else if even f then f else f + 1)"

type_synonym double = "int \<times> int"

definition roundToDouble :: "int \<times> int \<Rightarrow> double" where
  "roundToDouble x =
     (case x of (p, q) \<Rightarrow>
        if p = 0 then (0, 1)
        else let s = 52 - binade p q;
                 m = round_half_even (p * 2 ^ nat s) (q * 2 ^ nat (- s))
             in (m * 2 ^ nat (- s), 2 ^ nat s))"

text \<open>The operators \<^verbatim>\<open>/\<close> and \<^verbatim>\<open>*\<close> round the exact result once.\<close>

definition fdiv :: "double \<Rightarrow> double \<Rightarrow> double" where
  "fdiv x y = (case (x, y) of ((a, b), (c, d)) \<Rightarrow> roundToDouble (a * d, b * c))"

definition fmul :: "double \<Rightarrow> double \<Rightarrow> double" where
  "fmul x y = (case (x, y) of ((a, b), (c, d)) \<Rightarrow> roundToDouble (a * c, b * d))"

text \<open>
  \<^verbatim>\<open>Math.round\<close> returns the integer closest to its argument, the larger one on a
  tie: the floor of the argument plus one half, computed exactly.
\<close>

definition Math_round :: "double \<Rightarrow> int" where
  "Math_round x = (case x of (p, q) \<Rightarrow> (2 * p + q) div (2 * q))"

definition getProgress :: "project \<Rightarrow> int" where
  "getProgress p =
     (if length (p_tasks p) = 0 then 0
      else let completed = length (filter (\<lambda>t. t_status t = ''Done'') (p_tasks p))
           in Math_round (fmul (fdiv (int completed, 1) (int (length (p_tasks p)), 1)) (100, 1)))"

text \<open>
  \<^verbatim>\<open>Task.isOverdue\<close>. \<^verbatim>\<open>!this.dueDate\<close> holds for \<^verbatim>\<open>null\<close>, \<^verbatim>\<open>undefined\<close> and the
  empty string. \<^verbatim>\<open>new Date(this.dueDate)\<close> parses the string; the parser of the
  JavaScript runtime is the parameter \<open>parse\<close>, which gives \<open>None\<close> for an invalid date
  (time value \<^verbatim>\<open>NaN\<close>, and \<^verbatim>\<open>NaN < x\<close> is false). \<open>now\<close> is the time value of
  \<^verbatim>\<open>new Date()\<close>. The predicate reads only fields of a task, so it is stated on the
  record scheme and applies to the annotated copies of \<open>getAllTasks\<close> as well.
\<close>

definition isOverdue :: "(string \<Rightarrow> int option) \<Rightarrow> int \<Rightarrow> 'a task_scheme \<Rightarrow> bool" where
  "isOverdue parse now t =
     (case t_dueDate t of
        None \<Rightarrow> False
      | Some s \<Rightarrow>
          if s = [] \<or> t_completed t then False
          else (case parse s of None \<Rightarrow> False | Some d \<Rightarrow> d < now))"

section \<open>Project manager\<close>

text \<open>
  The state of the program: the array \<^verbatim>\<open>projectManager.projects\<close> and the item
  \<^verbatim>\<open>'projects'\<close> of \<^verbatim>\<open>localStorage\<close>, which holds the collection as it was at the
  last \<^verbatim>\<open>saveProjects\<close> (\<open>None\<close> while nothing was saved).
\<close>

record state =
  projects :: "project list"
  stored :: "project list option"

definition saveProjects :: "state \<Rightarrow> state" where
  "saveProjects st = st\<lparr>stored := Some (projects st)\<rparr>"

text \<open>
  JavaScript mutates the object that \<^verbatim>\<open>Array.prototype.find\<close> returned; in the model
  the first element that satisfies the predicate is replaced in the list.
\<close>

fun update_first :: "('a \<Rightarrow> bool) \<Rightarrow> ('a \<Rightarrow> 'a) \<Rightarrow> 'a list \<Rightarrow> 'a list" where
  "update_first P f [] = []"
| "update_first P f (x # xs) = (if P x then f x # xs else x # update_first P f xs)"

text \<open>\<^verbatim>\<open>Number.prototype.toString\<close> on an integer: its decimal digits.\<close>

definition digit_char :: "nat \<Rightarrow> char" where
  "digit_char d = char_of (48 + d)"

function digits :: "nat \<Rightarrow> string" where
  "digits n = (if n < 10 then [digit_char n] else digits (n div 10) @ [digit_char (n mod 10)])"
  by pat_completeness auto
termination
  by (relation "measure (\<lambda>n. n)") auto

definition toString :: "int \<Rightarrow> string" where
  "toString i = (if i < 0 then CHR ''-'' # digits (nat (- i)) else digits (nat i))"

text \<open>
  A payload of \<^verbatim>\<open>Object.assign(project, data)\<close>: \<open>Some v\<close> for a property that
  \<open>data\<close> has, \<open>None\<close> for one it has not.
\<close>

record project_data =
  pd_id :: "string option"
  pd_name :: "string option"
  pd_description :: "string option"
  pd_status :: "string option"
  pd_priority :: "string option"
  pd_deadline :: "string option option"
  pd_createdAt :: "int option"
  pd_tasks :: "task list option"

definition supplied :: "'a option \<Rightarrow> 'a \<Rightarrow> 'a" where
  "supplied new old = (case new of None \<Rightarrow> old | Some v \<Rightarrow> v)"

definition assign_project :: "project \<Rightarrow> project_data \<Rightarrow> project" where
  "assign_project p d =
     \<lparr>p_id = supplied (pd_id d) (p_id p),
      p_name = supplied (pd_name d) (p_name p),
      p_description = supplied (pd_description d) (p_description p),
      p_status = supplied (pd_status d) (p_status p),
      p_priority = supplied (pd_priority d) (p_priority p),
      p_deadline = supplied (pd_deadline d) (p_deadline p),
      p_createdAt = supplied (pd_createdAt d) (p_createdAt p),
      p_tasks = supplied (pd_tasks d) (p_tasks p)\<rparr>"

text \<open>
  A function of the source that returns an object, \<^verbatim>\<open>null\<close> or \<^verbatim>\<open>undefined\<close>
  returns an option here: \<open>None\<close> for \<^verbatim>\<open>null\<close> and \<^verbatim>\<open>undefined\<close>. Every operation
  takes the state and returns the new state with its result.
\<close>

definition getProject :: "string \<Rightarrow> state \<Rightarrow> project option" where
  "getProject ident st = find (\<lambda>p. p_id p = ident) (projects st)"

definition createProject ::
  "int \<Rightarrow> int \<Rightarrow> string \<Rightarrow> string \<Rightarrow> string \<Rightarrow> string \<Rightarrow> string option \<Rightarrow> state
    \<Rightarrow> state \<times> project" where
  "createProject clock createdAt name description status priority deadline st =
     (let ident = toString clock;
          project = Project ident name description status priority deadline createdAt
      in (saveProjects (st\<lparr>projects := projects st @ [project]\<rparr>), project))"

definition updateProject :: "string \<Rightarrow> project_data \<Rightarrow> state \<Rightarrow> state \<times> project option" where
  "updateProject ident data st =
     (case find (\<lambda>p. p_id p = ident) (projects st) of
        None \<Rightarrow> (st, None)
      | Some project \<Rightarrow>
          (saveProjects
             (st\<lparr>projects :=
                   update_first (\<lambda>p. p_id p = ident) (\<lambda>p. assign_project p data) (projects st)\<rparr>),
           Some (assign_project project data)))"

definition deleteProject :: "string \<Rightarrow> state \<Rightarrow> state" where
  "deleteProject ident st =
     saveProjects (st\<lparr>projects := filter (\<lambda>p. p_id p \<noteq> ident) (projects st)\<rparr>)"

section \<open>Task manager\<close>

record task_data =
  td_id :: "string option"
  td_projectId :: "string option"
  td_name :: "string option"
  td_description :: "string option"
  td_status :: "string option"
  td_priority :: "string option"
  td_dueDate :: "string option option"
  td_assignee :: "string option"
  td_completed :: "bool option"
  td_createdAt :: "int option"

definition assign_task :: "task \<Rightarrow> task_data \<Rightarrow> task" where
  "assign_task t d =
     \<lparr>t_id = supplied (td_id d) (t_id t),
      t_projectId = supplied (td_projectId d) (t_projectId t),
      t_name = supplied (td_name d) (t_name t),
      t_description = supplied (td_description d) (t_description t),
      t_status = supplied (td_status d) (t_status t),
      t_priority = supplied (td_priority d) (t_priority t),
      t_dueDate = supplied (td_dueDate d) (t_dueDate t),
      t_assignee = supplied (td_assignee d) (t_assignee t),
      t_completed = supplied (td_completed d) (t_completed t),
      t_createdAt = supplied (td_createdAt d) (t_createdAt t)\<rparr>"

text \<open>
  \<^verbatim>\<open>createTask\<close>: \<open>clock\<close> is the reading of \<^verbatim>\<open>Date.now()\<close>, \<open>createdAt\<close> the one
  of the constructor. The \<^verbatim>\<open>return task\<close> is outside the \<^verbatim>\<open>if (project)\<close>.
\<close>

definition createTask ::
  "int \<Rightarrow> int \<Rightarrow> string \<Rightarrow> string \<Rightarrow> string \<Rightarrow> string \<Rightarrow> string \<Rightarrow> string option \<Rightarrow> string
    \<Rightarrow> state \<Rightarrow> state \<times> task option" where
  "createTask clock createdAt projectId name description status priority dueDate assignee st =
     (let ident = toString clock;
          task = Task ident projectId name description status priority dueDate assignee createdAt
      in (case getProject projectId st of
            None \<Rightarrow> (st, Some task)
          | Some project \<Rightarrow>
              (saveProjects
                 (st\<lparr>projects :=
                       update_first (\<lambda>p. p_id p = projectId)
                         (\<lambda>p. p\<lparr>p_tasks := p_tasks p @ [task]\<rparr>) (projects st)\<rparr>),
               Some task)))"

text \<open>
  \<^verbatim>\<open>updateTask\<close>: after \<^verbatim>\<open>Object.assign(task, data)\<close> the source sets
  \<^verbatim>\<open>task.completed = data.status === 'Done'\<close>, reading the status of the payload.
\<close>

definition updated_task :: "task \<Rightarrow> task_data \<Rightarrow> task" where
  "updated_task t data = (assign_task t data)\<lparr>t_completed := (td_status data = Some ''Done'')\<rparr>"

definition updateTask :: "string \<Rightarrow> string \<Rightarrow> task_data \<Rightarrow> state \<Rightarrow> state \<times> task option" where
  "updateTask projectId taskId data st =
     (case getProject projectId st of
        None \<Rightarrow> (st, None)
      | Some project \<Rightarrow>
          (case find (\<lambda>t. t_id t = taskId) (p_tasks project) of
             None \<Rightarrow> (st, None)
           | Some task \<Rightarrow>
               (saveProjects
                  (st\<lparr>projects :=
                        update_first (\<lambda>p. p_id p = projectId)
                          (\<lambda>p. p\<lparr>p_tasks :=
                                   update_first (\<lambda>t. t_id t = taskId)
                                     (\<lambda>t. updated_task t data) (p_tasks p)\<rparr>)
                          (projects st)\<rparr>),
                Some (updated_task task data))))"

definition deleteTask :: "string \<Rightarrow> string \<Rightarrow> state \<Rightarrow> state" where
  "deleteTask projectId taskId st =
     (case getProject projectId st of
        None \<Rightarrow> st
      | Some project \<Rightarrow>
          saveProjects
            (st\<lparr>projects :=
                  update_first (\<lambda>p. p_id p = projectId)
                    (\<lambda>p. p\<lparr>p_tasks := filter (\<lambda>t. t_id t \<noteq> taskId) (p_tasks p)\<rparr>)
                    (projects st)\<rparr>))"

definition getTask :: "string \<Rightarrow> string \<Rightarrow> state \<Rightarrow> task option" where
  "getTask projectId taskId st =
     (case getProject projectId st of
        None \<Rightarrow> None
      | Some project \<Rightarrow> find (\<lambda>t. t_id t = taskId) (p_tasks project))"

text \<open>
  \<^verbatim>\<open>getAllTasks\<close> copies every task and adds the name of its project
  (\<^verbatim>\<open>{ ...t, projectName: p.name }\<close>): the record \<open>task\<close> extended by one field.
\<close>

record task_view = task +
  projectName :: string

definition annotate :: "project \<Rightarrow> task \<Rightarrow> task_view" where
  "annotate p t = task.extend t (task_view.fields (p_name p))"

definition getAllTasks :: "state \<Rightarrow> task_view list" where
  "getAllTasks st = concat (map (\<lambda>p. map (annotate p) (p_tasks p)) (projects st))"

definition getTasksByStatus :: "string \<Rightarrow> state \<Rightarrow> task_view list" where
  "getTasksByStatus status st = filter (\<lambda>t. t_status t = status) (getAllTasks st)"

definition getOverdueTasks :: "(string \<Rightarrow> int option) \<Rightarrow> int \<Rightarrow> state \<Rightarrow> task_view list" where
  "getOverdueTasks parse now st =
     filter (\<lambda>t. case t_dueDate t of
                   None \<Rightarrow> False
                 | Some s \<Rightarrow>
                     if s = [] \<or> t_completed t then False
                     else (case parse s of None \<Rightarrow> False | Some d \<Rightarrow> d < now))
       (getAllTasks st)"

definition getPendingTasks :: "state \<Rightarrow> task_view list" where
  "getPendingTasks st = filter (\<lambda>t. \<not> t_completed t) (getAllTasks st)"

record task_stats =
  s_pending :: nat
  s_overdue :: nat
  s_completed :: nat
  s_toDo :: nat
  s_inProgress :: nat
  s_total :: nat

definition getStats :: "(string \<Rightarrow> int option) \<Rightarrow> int \<Rightarrow> state \<Rightarrow> task_stats" where
  "getStats parse now st =
     (let allTasks = getAllTasks st;
          pending = length (filter (\<lambda>t. \<not> t_completed t) allTasks);
          overdue = length (getOverdueTasks parse now st);
          completed = length (filter (\<lambda>t. t_completed t) allTasks);
          toDo = length (filter (\<lambda>t. t_status t = ''To Do'') allTasks);
          inProgress = length (filter (\<lambda>t. t_status t = ''In Progress'') allTasks)
      in \<lparr>s_pending = pending, s_overdue = overdue, s_completed = completed, s_toDo = toDo,
          s_inProgress = inProgress, s_total = length allTasks\<rparr>)"

section \<open>Date objects\<close>

text \<open>
  \<^verbatim>\<open>getMonthData\<close> builds three \<^verbatim>\<open>Date\<close> objects with \<^verbatim>\<open>new Date(year, month, date)\<close>
  and reads them with \<^verbatim>\<open>getDay\<close> and \<^verbatim>\<open>getDate\<close>. The functions below are the
  day-number algorithms of the ECMAScript specification (section "Time Values and Time
  Range"): \<open>DaysInYear\<close>, \<open>DayFromYear\<close>, \<open>YearFromTime\<close>, \<open>InLeapYear\<close>,
  \<open>DayWithinYear\<close>, \<open>MonthFromTime\<close>, \<open>DateFromTime\<close>, \<open>WeekDay\<close>, \<open>MakeDay\<close>,
  \<open>MakeFullYear\<close> and \<open>TimeClip\<close>. All three dates are local midnights, so a time
  value is a whole number of days and is kept as its day number (day 0 is 1 January 1970);
  the conversion between local time and UTC is taken to cancel between the constructor and
  the getters. A \<^verbatim>\<open>Date\<close> is an \<open>int option\<close>: \<open>None\<close> is the invalid date, whose
  getters return \<^verbatim>\<open>NaN\<close>, again \<open>None\<close>.

  The specification defines \<open>YearFromTime t\<close> as the largest year \<open>y\<close> with
  \<open>TimeFromYear y \<le> t\<close>; \<open>YearFromDay\<close> computes it from an estimate that is off by at
  most one (lemmas \<open>YearFromDay_bounds\<close> and \<open>YearFromDay_unique\<close> below).
\<close>

definition DaysInYear :: "int \<Rightarrow> int" where
  "DaysInYear y =
     (if y mod 4 \<noteq> 0 then 365 else if y mod 100 \<noteq> 0 then 366
      else if y mod 400 \<noteq> 0 then 365 else 366)"

definition DayFromYear :: "int \<Rightarrow> int" where
  "DayFromYear y =
     365 * (y - 1970) + (y - 1969) div 4 - (y - 1901) div 100 + (y - 1601) div 400"

definition YearFromDay :: "int \<Rightarrow> int" where
  "YearFromDay d =
     (let e = 1970 + (400 * d) div 146097
      in if DayFromYear (e + 1) \<le> d then e + 1 else if DayFromYear e \<le> d then e else e - 1)"

definition InLeapYear :: "int \<Rightarrow> int" where
  "InLeapYear d = (if DaysInYear (YearFromDay d) = 366 then 1 else 0)"

definition DayWithinYear :: "int \<Rightarrow> int" where
  "DayWithinYear d = d - DayFromYear (YearFromDay d)"

definition MonthFromDay :: "int \<Rightarrow> int" where
  "MonthFromDay d =
     (let w = DayWithinYear d; l = InLeapYear d
      in if w < 31 then 0 else if w < 59 + l then 1 else if w < 90 + l then 2
         else if w < 120 + l then 3 else if w < 151 + l then 4 else if w < 181 + l then 5
         else if w < 212 + l then 6 else if w < 243 + l then 7 else if w < 273 + l then 8
         else if w < 304 + l then 9 else if w < 334 + l then 10 else 11)"

definition DateFromDay :: "int \<Rightarrow> int" where
  "DateFromDay d =
     (let w = DayWithinYear d; l = InLeapYear d; m = MonthFromDay d
      in if m = 0 then w + 1 else if m = 1 then w - 30 else if m = 2 then w - 58 - l
         else if m = 3 then w - 89 - l else if m = 4 then w - 119 - l
         else if m = 5 then w - 150 - l else if m = 6 then w - 180 - l
         else if m = 7 then w - 211 - l else if m = 8 then w - 242 - l
         else if m = 9 then w - 272 - l else if m = 10 then w - 303 - l else w - 333 - l)"

definition WeekDay :: "int \<Rightarrow> int" where
  "WeekDay d = (d + 4) mod 7"

text \<open>
  \<open>MakeDay\<close> carries whole years of \<open>month\<close> into the year and finds the day on which
  the month starts: \<open>monthStart mn l\<close> is the day within the year of the first of
  month \<open>mn\<close>, the table that \<open>MonthFromDay\<close> inverts.
\<close>

definition monthStart :: "int \<Rightarrow> int \<Rightarrow> int" where
  "monthStart mn l =
     (if mn = 0 then 0 else if mn = 1 then 31 else if mn = 2 then 59 + l
      else if mn = 3 then 90 + l else if mn = 4 then 120 + l else if mn = 5 then 151 + l
      else if mn = 6 then 181 + l else if mn = 7 then 212 + l else if mn = 8 then 243 + l
      else if mn = 9 then 273 + l else if mn = 10 then 304 + l else 334 + l)"

definition MakeDay :: "int \<Rightarrow> int \<Rightarrow> int \<Rightarrow> int" where
  "MakeDay year month date =
     (let ym = year + month div 12; mn = month mod 12
      in DayFromYear ym + monthStart mn (if DaysInYear ym = 366 then 1 else 0) + date - 1)"

text \<open>The constructor reads a year from 0 to 99 as a year of the twentieth century.\<close>

definition MakeFullYear :: "int \<Rightarrow> int" where
  "MakeFullYear y = (if 0 \<le> y \<and> y \<le> 99 then 1900 + y else y)"

text \<open>
  A time value beyond 8.64e15 milliseconds, that is 100,000,000 days, on either side of
  the epoch is not a date.
\<close>

definition TimeClip :: "int \<Rightarrow> int option" where
  "TimeClip d = (if 100000000 < \<bar>d\<bar> then None else Some d)"

definition newDate :: "int \<Rightarrow> int \<Rightarrow> int \<Rightarrow> int option" where
  "newDate year month date = TimeClip (MakeDay (MakeFullYear year) month date)"

definition getDay :: "int option \<Rightarrow> int option" where
  "getDay D = map_option WeekDay D"

definition getDate :: "int option \<Rightarrow> int option" where
  "getDate D = map_option DateFromDay D"

definition getMonth :: "int option \<Rightarrow> int option" where
  "getMonth D = map_option MonthFromDay D"

definition getFullYear :: "int option \<Rightarrow> int option" where
  "getFullYear D = map_option YearFromDay D"

section \<open>Calendar manager\<close>

text \<open>
  A cell of the month grid. \<^verbatim>\<open>day\<close> of a leading cell is
  \<^verbatim>\<open>daysInPrevMonth - i\<close>, which is \<^verbatim>\<open>NaN\<close> (\<open>None\<close>) when \<^verbatim>\<open>daysInPrevMonth\<close> is.
\<close>

record day_cell =
  c_day :: "int option"
  c_month :: int
  c_year :: int
  c_isCurrentMonth :: bool

text \<open>
  The three \<^verbatim>\<open>for\<close> loops of \<^verbatim>\<open>getMonthData\<close>, each with the array \<^verbatim>\<open>days\<close> it
  pushes to as accumulator.
\<close>

function prevMonthDays :: "int \<Rightarrow> int option \<Rightarrow> int \<Rightarrow> int \<Rightarrow> day_cell list \<Rightarrow> day_cell list" where
  "prevMonthDays i daysInPrevMonth month year days =
     (if 0 \<le> i
      then prevMonthDays (i - 1) daysInPrevMonth month year
             (days @ [\<lparr>c_day = map_option (\<lambda>n. n - i) daysInPrevMonth,
                       c_month = month - 1,
                       c_year = (if month = 0 then year - 1 else year),
                       c_isCurrentMonth = False\<rparr>])
      else days)"
  by pat_completeness auto
termination
  by (relation "measure (\<lambda>(i, daysInPrevMonth, month, year, days). nat (i + 1))") auto

function currentMonthDays :: "int \<Rightarrow> int \<Rightarrow> int \<Rightarrow> int \<Rightarrow> day_cell list \<Rightarrow> day_cell list" where
  "currentMonthDays i daysInMonth month year days =
     (if i \<le> daysInMonth
      then currentMonthDays (i + 1) daysInMonth month year
             (days @ [\<lparr>c_day = Some i, c_month = month, c_year = year,
                       c_isCurrentMonth = True\<rparr>])
      else days)"
  by pat_completeness auto
termination
  by (relation "measure (\<lambda>(i, daysInMonth, month, year, days). nat (daysInMonth + 1 - i))") auto

function nextMonthDays :: "int \<Rightarrow> int \<Rightarrow> int \<Rightarrow> int \<Rightarrow> day_cell list \<Rightarrow> day_cell list" where
  "nextMonthDays i remainingDays month year days =
     (if i \<le> remainingDays
      then nextMonthDays (i + 1) remainingDays month year
             (days @ [\<lparr>c_day = Some i, c_month = month + 1,
                       c_year = (if month = 11 then year + 1 else year),
                       c_isCurrentMonth = False\<rparr>])
      else days)"
  by pat_completeness auto
termination
  by (relation "measure (\<lambda>(i, remainingDays, month, year, days). nat (remainingDays + 1 - i))") auto

text \<open>
  A loop whose bound is \<^verbatim>\<open>NaN\<close> does not run: \<^verbatim>\<open>NaN - 1 >= 0\<close> and \<^verbatim>\<open>1 <= NaN\<close>
  are false.
\<close>

definition getMonthData :: "int \<Rightarrow> int \<Rightarrow> day_cell list" where
  "getMonthData year month =
     (let firstDay = newDate year month 1;
          lastDay = newDate year (month + 1) 0;
          prevLastDay = newDate year month 0;
          firstDayOfWeek = getDay firstDay;
          daysInMonth = getDate lastDay;
          daysInPrevMonth = getDate prevLastDay;
          days1 = (case firstDayOfWeek of
                     None \<Rightarrow> []
                   | Some f \<Rightarrow> prevMonthDays (f - 1) daysInPrevMonth month year []);
          days2 = (case daysInMonth of
                     None \<Rightarrow> days1
                   | Some n \<Rightarrow> currentMonthDays 1 n month year days1);
          remainingDays = 42 - int (length days2)
      in nextMonthDays 1 remainingDays month year days2)"

text \<open>
  \<^verbatim>\<open>renderCalendar\<close> turns every cell back into a date with
  \<^verbatim>\<open>new Date(day.year, day.month, day.day)\<close>; a \<^verbatim>\<open>NaN\<close> day gives the invalid date.
\<close>

definition cellDate :: "day_cell \<Rightarrow> int option" where
  "cellDate c = (case c_day c of None \<Rightarrow> None | Some d \<Rightarrow> newDate (c_year c) (c_month c) d)"

section \<open>Notions of the specification\<close>

text \<open>
  The Gregorian calendar as the specification speaks of it: leap years and the number of
  days of a month (month index 0 to 11), independent of the day numbers above.
\<close>

definition isLeapYear :: "int \<Rightarrow> bool" where
  "isLeapYear y = (y mod 4 = 0 \<and> (y mod 100 \<noteq> 0 \<or> y mod 400 = 0))"

definition monthLength :: "int \<Rightarrow> int \<Rightarrow> int" where
  "monthLength y m =
     (if m = 1 then (if isLeapYear y then 29 else 28)
      else if m = 3 \<or> m = 5 \<or> m = 8 \<or> m = 10 then 30 else 31)"


definition prevMonthLength :: "int \<Rightarrow> int \<Rightarrow> int" where
  "prevMonthLength y m = (if m = 0 then monthLength (y - 1) 11 else monthLength y (m - 1))"

text \<open>
  The years of which every day is a valid \<^verbatim>\<open>Date\<close>, and those among them that the
  constructor takes as they are.
\<close>

definition yearInRange :: "int \<Rightarrow> bool" where
  "yearInRange y = (- 271820 \<le> y \<and> y \<le> 275759)"

definition plainYear :: "int \<Rightarrow> bool" where
  "plainYear y = ((y < 0 \<or> 99 < y) \<and> yearInRange y)"

text \<open>The three kinds of cells that \<^verbatim>\<open>getMonthData\<close> pushes.\<close>

definition leadingCell :: "int option \<Rightarrow> int \<Rightarrow> int \<Rightarrow> int \<Rightarrow> day_cell" where
  "leadingCell daysInPrevMonth month year i =
     \<lparr>c_day = map_option (\<lambda>n. n - i) daysInPrevMonth, c_month = month - 1,
      c_year = (if month = 0 then year - 1 else year), c_isCurrentMonth = False\<rparr>"

definition currentCell :: "int \<Rightarrow> int \<Rightarrow> int \<Rightarrow> day_cell" where
  "currentCell month year i =
     \<lparr>c_day = Some i, c_month = month, c_year = year, c_isCurrentMonth = True\<rparr>"

definition trailingCell :: "int \<Rightarrow> int \<Rightarrow> int \<Rightarrow> day_cell" where
  "trailingCell month year i =
     \<lparr>c_day = Some i, c_month = month + 1, c_year = (if month = 11 then year + 1 else year),
      c_isCurrentMonth = False\<rparr>"

text \<open>
  The percentage of \<open>c\<close> out of \<open>n\<close> rounded half up, computed exactly: the floor of
  \<open>100 * c / n + 1 / 2\<close>.
\<close>

definition half_up_percent :: "nat \<Rightarrow> nat \<Rightarrow> int" where
  "half_up_percent c n = (200 * int c + int n) div (2 * int n)"

text \<open>
  The back reference of the data model: every task names the project that holds it.
  \<^verbatim>\<open>createTask\<close> establishes it and the operations keep it unless a payload overwrites
  an \<^verbatim>\<open>id\<close> or a \<^verbatim>\<open>projectId\<close> (lemmas \<open>owns_createTask\<close>, \<open>owns_updateTask\<close>, ...).
\<close>

definition owns :: "state \<Rightarrow> bool" where
  "owns st = (\<forall>p \<in> set (projects st). \<forall>t \<in> set (p_tasks p). t_projectId t = p_id p)"

section \<open>Example data\<close>

text \<open>A project with one finished task, and a payload that only renames a task.\<close>

definition done_task :: task where
  "done_task = Task ''7'' ''1'' ''Design'' [] ''Done'' ''High'' None [] 0"

definition launch_state :: state where
  "launch_state =
     \<lparr>projects = [(Project ''1'' ''Launch'' [] ''Active'' ''High'' None 0)\<lparr>p_tasks := [done_task]\<rparr>],
      stored = None\<rparr>"

definition rename_only :: task_data where
  "rename_only =
     \<lparr>td_id = None, td_projectId = None, td_name = Some ''Design v2'', td_description = None,
      td_status = None, td_priority = None, td_dueDate = None, td_assignee = None,
      td_completed = None, td_createdAt = None\<rparr>"

definition rename_project :: project_data where
  "rename_project =
     \<lparr>pd_id = None, pd_name = Some ''Relaunch'', pd_description = None, pd_status = None,
      pd_priority = None, pd_deadline = None, pd_createdAt = None, pd_tasks = None\<rparr>"

text \<open>Two projects with one task each; the task of the first one is due and open.\<close>

definition design_task :: task where
  "design_task = Task ''11'' ''1'' ''Design'' [] ''To Do'' ''High'' (Some ''2024-01-01'') [] 0"

definition deploy_task :: task where
  "deploy_task = Task ''12'' ''2'' ''Deploy'' [] ''Done'' ''Low'' None [] 0"

definition launch_project :: project where
  "launch_project =
     (Project ''1'' ''Launch'' [] ''Active'' ''High'' None 0)\<lparr>p_tasks := [design_task]\<rparr>"

definition website_project :: project where
  "website_project =
     (Project ''2'' ''Website'' [] ''Active'' ''Low'' None 0)\<lparr>p_tasks := [deploy_task]\<rparr>"

definition two_projects :: state where
  "two_projects = \<lparr>projects = [launch_project, website_project], stored = None\<rparr>"

text \<open>A project with forty tasks, the first twenty-three of them done.\<close>

definition sprint :: project where
  "sprint =
     (Project ''1'' ''Sprint'' [] ''Active'' ''High'' None 0)
       \<lparr>p_tasks :=
          map (\<lambda>i. Task (toString i) ''1'' ''Task'' [] (if i \<le> 23 then ''Done'' else ''To Do'')
                     ''Medium'' None [] i)
            [1..40]\<rparr>"

section \<open>Lookup and the annotated copies\<close>

lemma find_id_None: "ident \<notin> p_id ` set ps \<Longrightarrow> find (\<lambda>p. p_id p = ident) ps = None"
  by (induction ps) auto

lemma set_update_first: "set (update_first P f xs) \<subseteq> set xs \<union> f ` {x \<in> set xs. P x}"
  by (induction xs) auto

lemma annotate_fields:
  "t_id (annotate p t) = t_id t"
  "t_projectId (annotate p t) = t_projectId t"
  "t_status (annotate p t) = t_status t"
  "t_dueDate (annotate p t) = t_dueDate t"
  "t_completed (annotate p t) = t_completed t"
  "projectName (annotate p t) = p_name p"
  by (simp_all add: annotate_def task.defs task_view.defs)

lemma isOverdue_annotate: "isOverdue parse now (annotate p t) = isOverdue parse now t"
  by (simp add: isOverdue_def annotate_fields split: option.splits)

lemma length_getAllTasks:
  "length (getAllTasks st) = sum_list (map (\<lambda>p. length (p_tasks p)) (projects st))"
  by (simp add: getAllTasks_def length_concat comp_def)

section \<open>Updating a project that does not exist\<close>

text \<open>
  C9. When no project of the collection has the given id, \<open>updateProject\<close> changes
  nothing and signals absence: the state it returns, the collection and the stored item
  alike, is the state it was given, and its result is \<open>None\<close> (\<^verbatim>\<open>undefined\<close>). The
  function is total, no exception is among its results.
\<close>

theorem updateProject_not_found:
  "ident \<notin> p_id ` set (projects st) \<Longrightarrow> updateProject ident data st = (st, None)"
  by (simp add: updateProject_def find_id_None)

theorem updateProject_not_found_witness:
  "''2'' \<notin> p_id ` set (projects launch_state) \<and>
   updateProject ''2'' rename_project launch_state = (launch_state, None)"
proof -
  have h: "''2'' \<notin> p_id ` set (projects launch_state)"
    by (simp add: launch_state_def Project_def)
  from h updateProject_not_found [OF h] show ?thesis
    by simp
qed

section \<open>Creating a task for a project that does not exist\<close>

text \<open>
  C2, as the code has it. When no project has the given id, \<open>createTask\<close> leaves the
  state as it was, so no task list changes and nothing is stored, and it still returns
  the task it constructed.
\<close>

theorem createTask_unknown_project:
  "projectId \<notin> p_id ` set (projects st) \<Longrightarrow>
   createTask clock createdAt projectId name description status priority dueDate assignee st
     = (st, Some (Task (toString clock) projectId name description status priority dueDate
                    assignee createdAt))"
  by (simp add: createTask_def getProject_def find_id_None)

theorem createTask_unknown_project_witness:
  "''9'' \<notin> p_id ` set (projects launch_state) \<and>
   createTask 12 13 ''9'' ''Design'' [] ''To Do'' ''High'' None [] launch_state
     = (launch_state,
        Some \<lparr>t_id = ''12'', t_projectId = ''9'', t_name = ''Design'', t_description = [],
              t_status = ''To Do'', t_priority = ''High'', t_dueDate = None, t_assignee = [],
              t_completed = False, t_createdAt = 13\<rparr>)"
proof -
  have h: "''9'' \<notin> p_id ` set (projects launch_state)"
    by (simp add: launch_state_def Project_def)
  have d: "toString 12 = ''12''"
    by code_simp
  from h createTask_unknown_project [OF h, of 12 13 "''Design''" "[]" "''To Do''" "''High''" None "[]"] d
  show ?thesis
    by (simp add: Task_def)
qed

text \<open>
  C2 as the specification states it, that no value is produced, fails: for the project
  id \<open>''9''\<close>, which \<open>launch_state\<close> does not have, the result is not \<open>None\<close>.
\<close>

theorem createTask_unknown_project_returns_task:
  "createTask 12 13 ''9'' ''Design'' [] ''To Do'' ''High'' None [] launch_state
     \<noteq> (launch_state, None)"
  by (simp add: createTask_def getProject_def launch_state_def Project_def)

section \<open>Updating a task\<close>

lemma updated_task_status_supplied:
  "td_status data = Some s \<Longrightarrow>
   t_status (updated_task t data) = s \<and> t_completed (updated_task t data) = (s = ''Done'')"
  by (simp add: updated_task_def assign_task_def supplied_def)

lemma updated_task_status_omitted:
  "td_status data = None \<Longrightarrow>
   t_status (updated_task t data) = t_status t \<and> t_completed (updated_task t data) = False"
  by (simp add: updated_task_def assign_task_def supplied_def)

lemma updated_task_ignores_completed:
  "t_completed (updated_task t (data\<lparr>td_completed := c\<rparr>)) = t_completed (updated_task t data)"
  by (simp add: updated_task_def)

text \<open>
  C1 at a failing input. The task \<open>''7''\<close> of \<open>launch_state\<close> has status \<open>''Done''\<close>
  and is completed. An update whose payload has a name and no status returns, and leaves
  in the collection, a task whose status is still \<open>''Done''\<close> and whose \<open>completed\<close>
  field is false: \<open>completed\<close> is computed from the status of the payload, which is
  absent, and not from the status in effect.
\<close>

theorem updateTask_without_status_drops_completed:
  "t_status done_task = ''Done'' \<and> t_completed done_task = True \<and>
   map_option (\<lambda>t. (t_status t, t_completed t)) (snd (updateTask ''1'' ''7'' rename_only launch_state))
     = Some (''Done'', False) \<and>
   map (\<lambda>t. (t_status t, t_completed t))
       (concat (map p_tasks (projects (fst (updateTask ''1'' ''7'' rename_only launch_state)))))
     = [(''Done'', False)]"
  by (simp add: updateTask_def getProject_def launch_state_def done_task_def rename_only_def
      Project_def Task_def updated_task_def assign_task_def supplied_def saveProjects_def)

section \<open>Task statistics\<close>


text \<open>
  C4, as the code has it. The statistics count over the flattened list: \<open>toDo\<close> and
  \<open>inProgress\<close> the tasks with exactly that status, \<open>pending\<close> the tasks whose
  \<open>completed\<close> field is false, \<open>completed\<close> the tasks whose \<open>completed\<close> field is
  true, \<open>overdue\<close> the length of \<open>getOverdueTasks\<close>, and \<open>total\<close> all tasks of all
  projects. Where every task has \<open>completed\<close> equal to (status is \<open>''Done''\<close>), the
  \<open>completed\<close> count is the number of tasks with status \<open>''Done''\<close>.
\<close>

theorem getStats_counts:
  "getStats parse now st =
     \<lparr>s_pending = length (getPendingTasks st),
      s_overdue = length (getOverdueTasks parse now st),
      s_completed = length (filter (\<lambda>t. t_completed t) (getAllTasks st)),
      s_toDo = length (getTasksByStatus ''To Do'' st),
      s_inProgress = length (getTasksByStatus ''In Progress'' st),
      s_total = sum_list (map (\<lambda>p. length (p_tasks p)) (projects st))\<rparr> \<and>
   ((\<forall>t \<in> set (getAllTasks st). t_completed t = (t_status t = ''Done'')) \<longrightarrow>
      s_completed (getStats parse now st) = length (getTasksByStatus ''Done'' st))"
proof -
  have "filter (\<lambda>t. t_completed t) (getAllTasks st) = getTasksByStatus ''Done'' st"
    if "\<forall>t \<in> set (getAllTasks st). t_completed t = (t_status t = ''Done'')"
    unfolding getTasksByStatus_def using that by (intro filter_cong) simp_all
  then show ?thesis
    by (simp add: getStats_def Let_def getPendingTasks_def getTasksByStatus_def
        length_getAllTasks)
qed

theorem getStats_counts_witness:
  "getStats (\<lambda>s. Some 0) 1 two_projects =
     \<lparr>s_pending = 1, s_overdue = 1, s_completed = 1, s_toDo = 1, s_inProgress = 0,
      s_total = 2\<rparr> \<and>
   list_all (\<lambda>t. t_completed t = (t_status t = ''Done'')) (getAllTasks two_projects) \<and>
   s_completed (getStats (\<lambda>s. Some 0) 1 two_projects)
     = length (getTasksByStatus ''Done'' two_projects)"
proof -
  have a: "getAllTasks two_projects
             = [annotate launch_project design_task, annotate website_project deploy_task]"
    by (simp add: getAllTasks_def two_projects_def launch_project_def website_project_def
        Project_def)
  have h: "\<forall>t \<in> set (getAllTasks two_projects). t_completed t = (t_status t = ''Done'')"
    unfolding a by (simp add: annotate_fields design_task_def deploy_task_def Task_def)
  have d: "length (getTasksByStatus ''Done'' two_projects) = 1"
    unfolding getTasksByStatus_def a
    by (simp add: annotate_fields design_task_def deploy_task_def Task_def)
  have s: "getStats (\<lambda>s. Some 0) 1 two_projects =
     \<lparr>s_pending = 1, s_overdue = 1, s_completed = 1, s_toDo = 1, s_inProgress = 0,
      s_total = 2\<rparr>"
    using getStats_counts [of "\<lambda>s. Some 0" 1 two_projects] h d
    unfolding getPendingTasks_def getOverdueTasks_def getTasksByStatus_def a
    by (simp add: annotate_fields design_task_def deploy_task_def Task_def two_projects_def
        launch_project_def website_project_def Project_def)
  from s h d show ?thesis
    by (simp add: list_all_iff)
qed

text \<open>
  C4 as the specification states it, that \<open>completed\<close> counts the tasks with status
  \<open>''Done''\<close>, fails in the state that the update of C1 leaves: its one task has status
  \<open>''Done''\<close> and is not counted as completed.
\<close>

theorem getStats_completed_is_not_status_count:
  "s_completed (getStats (\<lambda>s. None) 0 (fst (updateTask ''1'' ''7'' rename_only launch_state)))
     \<noteq> length (filter (\<lambda>t. t_status t = ''Done'')
          (getAllTasks (fst (updateTask ''1'' ''7'' rename_only launch_state))))"
  by (simp add: updateTask_def getProject_def launch_state_def done_task_def rename_only_def
      Project_def Task_def updated_task_def assign_task_def supplied_def saveProjects_def
      getStats_def getAllTasks_def annotate_fields Let_def)

section \<open>Overdue tasks\<close>

text \<open>
  C8. At every evaluation time, a task is overdue exactly when its due date is set (not
  null and not empty), denotes a time strictly before now, and the task is not completed.
  So a completed task is never overdue, whatever its due date, and \<open>getOverdueTasks\<close>
  keeps exactly the overdue tasks of the flattened list.
\<close>

theorem isOverdue_iff:
  "(isOverdue parse now t \<longleftrightarrow>
      (\<exists>s d. t_dueDate t = Some s \<and> s \<noteq> [] \<and> parse s = Some d \<and> d < now) \<and> \<not> t_completed t) \<and>
   \<not> isOverdue parse now (t\<lparr>t_completed := True\<rparr>) \<and>
   getOverdueTasks parse now st = filter (isOverdue parse now) (getAllTasks st)"
proof -
  have a: "isOverdue parse now t \<longleftrightarrow>
      (\<exists>s d. t_dueDate t = Some s \<and> s \<noteq> [] \<and> parse s = Some d \<and> d < now) \<and> \<not> t_completed t"
    by (auto simp add: isOverdue_def split: option.splits)
  have b: "\<not> isOverdue parse now (t\<lparr>t_completed := True\<rparr>)"
    by (simp add: isOverdue_def split: option.splits)
  have c: "getOverdueTasks parse now st = filter (isOverdue parse now) (getAllTasks st)"
    unfolding getOverdueTasks_def by (rule filter_cong) (simp_all add: isOverdue_def)
  from a b c show ?thesis
    by blast
qed

section \<open>Deleting a project\<close>







text \<open>
  The operations keep the back references: the empty collection has them, and creating a
  project or a task, deleting a project, and updating a task with a payload that has no
  \<^verbatim>\<open>projectId\<close> preserve them.
\<close>

lemma owns_empty: "owns \<lparr>projects = [], stored = s\<rparr>"
  by (simp add: owns_def)

lemma owns_createProject: "owns st \<Longrightarrow> owns (fst (createProject c a n d s p dl st))"
  by (auto simp add: owns_def createProject_def Let_def saveProjects_def Project_def)

lemma owns_createTask:
  assumes "owns st"
  shows "owns (fst (createTask c a pid n d s pr du asg st))"
proof -
  define task where "task = Task (toString c) pid n d s pr du asg a"
  have "p_id q = t_projectId t"
    if "q \<in> set (update_first (\<lambda>p. p_id p = pid) (\<lambda>p. p\<lparr>p_tasks := p_tasks p @ [task]\<rparr>)
                  (projects st))"
      and "t \<in> set (p_tasks q)" for q t
  proof -
    from that(1) set_update_first [of "\<lambda>p. p_id p = pid" _ "projects st"]
    consider "q \<in> set (projects st)"
      | p where "p \<in> set (projects st)" "p_id p = pid" "q = p\<lparr>p_tasks := p_tasks p @ [task]\<rparr>"
      by blast
    then show ?thesis
    proof cases
      case 1
      with that(2) assms show ?thesis by (auto simp add: owns_def)
    next
      case 2
      with that(2) assms show ?thesis by (auto simp add: owns_def task_def Task_def)
    qed
  qed
  then show ?thesis
    using assms
    by (auto simp add: createTask_def Let_def task_def [symmetric] saveProjects_def owns_def
        split: option.splits)
qed

lemma owns_deleteProject: "owns st \<Longrightarrow> owns (deleteProject ident st)"
  by (auto simp add: owns_def deleteProject_def saveProjects_def)

lemma owns_updateTask:
  assumes "owns st" "td_projectId data = None"
  shows "owns (fst (updateTask pid tid data st))"
proof -
  have u: "t_projectId (updated_task t data) = t_projectId t" for t
    using assms(2) by (simp add: updated_task_def assign_task_def supplied_def)
  have "p_id q = t_projectId t"
    if "q \<in> set (update_first (\<lambda>p. p_id p = pid)
                  (\<lambda>p. p\<lparr>p_tasks := update_first (\<lambda>t. t_id t = tid) (\<lambda>t. updated_task t data)
                                        (p_tasks p)\<rparr>)
                  (projects st))"
      and "t \<in> set (p_tasks q)" for q t
  proof -
    from that(1) set_update_first [of "\<lambda>p. p_id p = pid" _ "projects st"]
    consider "q \<in> set (projects st)"
      | p where "p \<in> set (projects st)"
          "q = p\<lparr>p_tasks := update_first (\<lambda>t. t_id t = tid) (\<lambda>t. updated_task t data) (p_tasks p)\<rparr>"
      by blast
    then show ?thesis
    proof cases
      case 1
      with that(2) assms(1) show ?thesis by (auto simp add: owns_def)
    next
      case 2
      with that(2) set_update_first [of "\<lambda>t. t_id t = tid" "\<lambda>t. updated_task t data" "p_tasks p"]
      have "t \<in> set (p_tasks p) \<or> (\<exists>t' \<in> set (p_tasks p). t = updated_task t' data)"
        by auto
      with 2 assms(1) u show ?thesis by (auto simp add: owns_def)
    qed
  qed
  then show ?thesis
    using assms(1)
    by (auto simp add: updateTask_def saveProjects_def owns_def split: option.splits)
qed

section \<open>Progress of a project\<close>

lemma div_lo: "0 < k \<Longrightarrow> k * (x div k) \<le> (x::int)"
  using mult_div_mod_eq [of k x] pos_mod_sign [of k x] by linarith

lemma div_hi: "0 < k \<Longrightarrow> (x::int) < k * (x div k) + k"
  using mult_div_mod_eq [of k x] pos_mod_bound [of k x] by linarith

text \<open>
  The model of the doubles rounds as IEEE 754 does. \<open>bitLength\<close> is the number of binary
  digits, \<open>binade\<close> the exponent of the power of two at or below the fraction, and
  \<open>round_half_even\<close> the integer nearest to a fraction, the even one on a tie.
\<close>

declare bitLength.simps [simp del]

lemma bitLength_nonneg: "0 \<le> bitLength n"
proof (induction n rule: bitLength.induct)
  case (1 n)
  then show ?case
    by (subst bitLength.simps) simp
qed

lemma bitLength_bounds:
  "0 < n \<Longrightarrow> 2 ^ nat (bitLength n - 1) \<le> n \<and> n < 2 ^ nat (bitLength n)"
proof (induction n rule: bitLength.induct)
  case (1 n)
  have b: "bitLength n = 1 + bitLength (n div 2)"
    using "1.prems" by (subst bitLength.simps) simp
  show ?case
  proof (cases "n = 1")
    case True
    then show ?thesis
      by (simp add: bitLength.simps [of 1] bitLength.simps [of 0])
  next
    case False
    with "1.prems" have h: "0 < n div 2" "\<not> n \<le> 0"
      by simp_all
    from "1.IH" [OF h(2) h(1)] have ih:
      "2 ^ nat (bitLength (n div 2) - 1) \<le> n div 2" "n div 2 < 2 ^ nat (bitLength (n div 2))"
      by simp_all
    have p: "1 \<le> bitLength (n div 2)"
      using bitLength.simps [of "n div 2"] bitLength_nonneg [of "n div 2 div 2"] h(1) by simp
    have e1: "nat (bitLength n - 1) = Suc (nat (bitLength (n div 2) - 1))"
      using p b by simp
    have e2: "nat (bitLength n) = Suc (nat (bitLength (n div 2)))"
      using p b by simp
    have "2 * (n div 2) \<le> n" "n < 2 * (n div 2) + 2"
      by simp_all
    with ih show ?thesis
      unfolding e1 e2 power_Suc by linarith
  qed
qed

lemma round_half_even_nearest:
  assumes "0 < q"
  shows "2 * \<bar>p - q * round_half_even p q\<bar> \<le> q \<and>
         (2 * \<bar>p - q * round_half_even p q\<bar> = q \<longrightarrow> even (round_half_even p q))"
proof -
  define f where "f = p div q"
  define r where "r = p mod q"
  have p: "p = q * f + r"
    by (simp add: f_def r_def)
  have r: "0 \<le> r" "r < q"
    using assms by (simp_all add: r_def)
  consider "2 * r < q" | "q < 2 * r" | "2 * r = q" "even f" | "2 * r = q" "odd f"
    by linarith
  then show ?thesis
  proof cases
    case 1
    then have "round_half_even p q = f"
      by (simp add: round_half_even_def f_def r_def Let_def)
    with 1 r show ?thesis by (simp add: p)
  next
    case 2
    then have "round_half_even p q = f + 1"
      by (simp add: round_half_even_def f_def r_def Let_def)
    with 2 r show ?thesis by (simp add: p ring_distribs)
  next
    case 3
    then have "round_half_even p q = f"
      by (simp add: round_half_even_def f_def r_def Let_def)
    with 3 r show ?thesis by (simp add: p)
  next
    case 4
    then have "round_half_even p q = f + 1"
      by (simp add: round_half_even_def f_def r_def Let_def)
    with 4 r show ?thesis by (simp add: p ring_distribs)
  qed
qed

lemma binade_bounds:
  assumes "0 < p" "0 < q"
  shows "q * 2 ^ nat (binade p q) \<le> p * 2 ^ nat (- binade p q) \<and>
         p * 2 ^ nat (- binade p q) < 2 * (q * 2 ^ nat (binade p q))"
proof -
  have pa: "1 \<le> bitLength p" and qb: "1 \<le> bitLength q"
    using bitLength.simps [of p] bitLength.simps [of q] bitLength_nonneg [of "p div 2"]
      bitLength_nonneg [of "q div 2"] assms by simp_all
  define a where "a = nat (bitLength p - 1)"
  define b where "b = nat (bitLength q - 1)"
  have la: "bitLength p = int a + 1" and lb: "bitLength q = int b + 1"
    using pa qb by (simp_all add: a_def b_def)
  have p: "2 ^ a \<le> p" "p < 2 * 2 ^ a"
    using bitLength_bounds [OF assms(1)] by (simp_all add: la a_def [symmetric] nat_add_distrib)
  have q: "2 ^ b \<le> q" "q < 2 * 2 ^ b"
    using bitLength_bounds [OF assms(2)] by (simp_all add: lb b_def [symmetric] nat_add_distrib)
  have k: "bitLength p - bitLength q = int a - int b"
    by (simp add: la lb)
  show ?thesis
  proof (cases "b \<le> a")
    case True
    define d where "d = a - b"
    have a: "a = b + d"
      using True by (simp add: d_def)
    have kd: "int a - int b = int d"
      by (simp add: a)
    have pw: "(2::int) ^ a = 2 ^ b * 2 ^ d"
      by (simp add: a power_add)
    have low: "(2::int) ^ b * 2 ^ d \<le> q * 2 ^ d"
      using q(1) by (intro mult_right_mono) simp_all
    show ?thesis
    proof (cases "q * 2 ^ d \<le> p")
      case yes: True
      then have e: "binade p q = int d"
        by (simp add: binade_def k kd)
      have "p < 2 * (q * 2 ^ d)"
        using p(2) low unfolding pw by linarith
      with yes show ?thesis
        unfolding e by simp
    next
      case no: False
      then have e: "binade p q = int d - 1"
        by (simp add: binade_def k kd)
      show ?thesis
      proof (cases d)
        case 0
        have "q < 2 * p"
          using q(2) p(1) unfolding pw 0 by simp
        with no show ?thesis
          unfolding e 0 by simp
      next
        case (Suc d')
        have "q * 2 ^ d' < (2 * 2 ^ b) * 2 ^ d'"
          using q(2) by (intro mult_strict_right_mono) simp_all
        then have 1: "q * 2 ^ d' \<le> p"
          using p(1) unfolding pw Suc power_Suc by linarith
        have 2: "p < 2 * (q * 2 ^ d')"
          using no unfolding Suc power_Suc by linarith
        have n: "nat (int (Suc d') - 1) = d'" "nat (- (int (Suc d') - 1)) = 0"
          by simp_all
        from 1 2 show ?thesis
          unfolding e Suc n by simp
      qed
    qed
  next
    case False
    define d where "d = b - a"
    have b: "b = a + d" and d: "0 < d"
      using False by (simp_all add: d_def)
    have kd: "int a - int b = - int d"
      by (simp add: b)
    have pw: "(2::int) ^ b = 2 ^ a * 2 ^ d"
      by (simp add: b power_add)
    have low: "(2::int) ^ a * 2 ^ d \<le> p * 2 ^ d"
      using p(1) by (intro mult_right_mono) simp_all
    have high: "p * 2 ^ d < (2 * 2 ^ a) * 2 ^ d"
      using p(2) by (intro mult_strict_right_mono) simp_all
    show ?thesis
    proof (cases "q \<le> p * 2 ^ d")
      case yes: True
      then have e: "binade p q = - int d"
        using d by (simp add: binade_def k kd)
      have "p * 2 ^ d < 2 * q"
        using high q(1) unfolding pw by linarith
      with yes show ?thesis
        unfolding e by simp
    next
      case no: False
      then have e: "binade p q = - int d - 1"
        using d by (simp add: binade_def k kd)
      have n: "nat (- (- int d - 1)) = Suc d" "nat (- int d - 1) = 0"
        by simp_all
      have 1: "q \<le> p * (2 * 2 ^ d)"
        using low q(2) unfolding pw by linarith
      have 2: "p * (2 * 2 ^ d) < 2 * q"
        using no by linarith
      from 1 2 show ?thesis
        unfolding e n power_Suc by simp
    qed
  qed
qed

lemma gap_below: "B \<le> P \<Longrightarrow> 2 * \<bar>P - A\<bar> \<le> Q \<Longrightarrow> 0 < Q \<Longrightarrow> A + Q \<le> B \<Longrightarrow> False"
  for A B P Q :: int
  by arith

lemma gap_above: "P < 2 * B \<Longrightarrow> 2 * \<bar>P - A\<bar> \<le> Q \<Longrightarrow> 0 < Q \<Longrightarrow> 2 * B + Q \<le> A \<Longrightarrow> False"
  for A B P Q :: int
  by arith

lemma scale_bounds:
  "0 < (t::int) \<Longrightarrow> a \<le> b \<Longrightarrow> b < 2 * a \<Longrightarrow> t * a \<le> t * b \<and> t * b < 2 * (t * a)"
proof -
  assume t: "0 < t" and "a \<le> b" and "b < 2 * a"
  then have "t * a \<le> t * b" "t * b < t * (2 * a)"
    by (simp_all add: mult_left_mono)
  then show ?thesis
    by (simp only: mult_ac)
qed

lemma significand_scaled:
  assumes "0 < p" "0 < q"
  shows "2 ^ 52 * (q * 2 ^ nat (- (52 - binade p q))) \<le> p * 2 ^ nat (52 - binade p q) \<and>
         p * 2 ^ nat (52 - binade p q) < 2 * (2 ^ 52 * (q * 2 ^ nat (- (52 - binade p q))))"
proof -
  define e where "e = binade p q"
  note b = binade_bounds [OF assms, unfolded e_def [symmetric]]
  consider "e \<le> 0" | "0 < e" "e \<le> 52" | "52 < e"
    by linarith
  then show ?thesis
  proof cases
    case 1
    define j where "j = nat (- e)"
    have n: "nat e = 0" "nat (- e) = j" "nat (52 - e) = 52 + j" "nat (- (52 - e)) = 0"
      using 1 by (simp_all add: j_def)
    from b have "q \<le> p * 2 ^ j" "p * 2 ^ j < 2 * q"
      unfolding n by simp_all
    from scale_bounds [OF _ this, of "2 ^ 52"] show ?thesis
      unfolding e_def [symmetric] n power_add power_0 mult_1_right
      by (simp only: mult_ac zero_less_power zero_less_numeral)
  next
    case 2
    define j where "j = nat e"
    define i where "i = nat (52 - e)"
    have n: "nat e = j" "nat (- e) = 0" "nat (52 - e) = i" "nat (- (52 - e)) = 0"
      using 2 by (simp_all add: j_def i_def)
    have "j + i = 52"
      using 2 by (simp add: j_def i_def)
    then have s: "(2::int) ^ 52 = 2 ^ j * 2 ^ i"
      by (simp only: power_add [symmetric])
    from b have "q * 2 ^ j \<le> p" "p < 2 * (q * 2 ^ j)"
      unfolding n by simp_all
    from scale_bounds [OF _ this, of "2 ^ i"] show ?thesis
      unfolding e_def [symmetric] n s power_0 mult_1_right
      by (simp only: mult_ac zero_less_power zero_less_numeral)
  next
    case 3
    define i where "i = nat (e - 52)"
    have n: "nat e = 52 + i" "nat (- e) = 0" "nat (52 - e) = 0" "nat (- (52 - e)) = i"
      using 3 by (simp_all add: i_def)
    from b show ?thesis
      unfolding e_def [symmetric] n power_add power_0 mult_1_right
      by (simp only: mult_ac)
  qed
qed

text \<open>
  \<open>roundToDouble\<close> rounds to nearest, ties to even: the result is \<open>m * 2 ^ (- s)\<close> with a
  significand \<open>m\<close> of 53 bits, at most half a unit in the last place from \<open>p / q\<close>, and
  with an even significand where \<open>p / q\<close> lies half way between two doubles.
\<close>

lemma roundToDouble_nearest:
  assumes "0 < p" "0 < q"
  defines "s \<equiv> 52 - binade p q"
  shows "\<exists>m. roundToDouble (p, q) = (m * 2 ^ nat (- s), 2 ^ nat s) \<and>
             2 ^ 52 \<le> m \<and> m \<le> 2 * 2 ^ 52 \<and>
             2 * \<bar>p * 2 ^ nat s - q * 2 ^ nat (- s) * m\<bar> \<le> q * 2 ^ nat (- s) \<and>
             (2 * \<bar>p * 2 ^ nat s - q * 2 ^ nat (- s) * m\<bar> = q * 2 ^ nat (- s) \<longrightarrow> even m)"
proof -
  define P where "P = p * 2 ^ nat s"
  define Q where "Q = q * 2 ^ nat (- s)"
  define m where "m = round_half_even P Q"
  define T where "T = (2::int) ^ 52"
  have Q: "0 < Q"
    using assms(2) by (simp add: Q_def)
  have r: "Q * T \<le> P" "P < 2 * (Q * T)"
    using significand_scaled [OF assms(1,2)]
    unfolding P_def Q_def s_def T_def by (simp_all only: mult.commute)
  note n = round_half_even_nearest [OF Q, of P, unfolded m_def [symmetric]]
  have lo: "T \<le> m"
  proof (rule ccontr)
    assume "\<not> T \<le> m"
    then have "m + 1 \<le> T" by simp
    then have "Q * (m + 1) \<le> Q * T"
      using Q by (intro mult_left_mono) simp_all
    then have "Q * m + Q \<le> Q * T"
      by (simp only: ring_distribs mult_1_right)
    then show False
      by (rule gap_below [OF r(1) n [THEN conjunct1] Q])
  qed
  have hi: "m \<le> 2 * T"
  proof (rule ccontr)
    assume "\<not> m \<le> 2 * T"
    then have "2 * T + 1 \<le> m" by simp
    then have "Q * (2 * T + 1) \<le> Q * m"
      using Q by (intro mult_left_mono) simp_all
    then have "2 * (Q * T) + Q \<le> Q * m"
      by (simp only: ring_distribs mult_1_right mult_ac)
    then show False
      by (rule gap_above [OF r(2) n [THEN conjunct1] Q])
  qed
  have "roundToDouble (p, q) = (m * 2 ^ nat (- s), 2 ^ nat s)"
    using assms(1) by (simp add: roundToDouble_def Let_def m_def P_def Q_def s_def)
  with lo hi n show ?thesis
    unfolding P_def Q_def T_def by blast
qed

text \<open>\<open>Math_round\<close> is the floor of the argument plus one half.\<close>

lemma Math_round_floor:
  assumes "0 < q"
  shows "2 * q * Math_round (p, q) \<le> 2 * p + q \<and> 2 * p + q < 2 * q * (Math_round (p, q) + 1)"
proof -
  have q: "0 < 2 * q"
    using assms by simp
  show ?thesis
    using div_lo [OF q, of "2 * p + q"] div_hi [OF q, of "2 * p + q"]
    by (simp add: Math_round_def ring_distribs)
qed

lemma getProgress_no_tasks: "p_tasks p = [] \<Longrightarrow> getProgress p = 0"
  by (simp add: getProgress_def)

lemma fdiv_23_40: "fdiv (23, 1) (40, 1) = (5179139571476070, 9007199254740992)"
  by code_simp

lemma fmul_23_40_100:
  "fmul (5179139571476070, 9007199254740992) (100, 1) = (8092405580431359, 140737488355328)"
  by code_simp

lemma getProgress_thirds:
  "Math_round (fmul (fdiv (1, 1) (3, 1)) (100, 1)) = 33"
  "Math_round (fmul (fdiv (2, 1) (3, 1)) (100, 1)) = 67"
  by code_simp+

lemma sprint_counts:
  "length (p_tasks sprint) = 40"
  "length (filter (\<lambda>t. t_status t = ''Done'') (p_tasks sprint)) = 23"
  by code_simp+

text \<open>
  C5 at a failing input. With 23 of 40 tasks done the exact percentage is 57.5, which
  rounds half up to 58. The double nearest to 23 / 40 lies below 0.575 and its product
  with 100 rounds to the double 57.49999999999999289457264239899814128875732421875
  (\<open>8092405580431359 / 2 ^ 47\<close>), so \<open>getProgress\<close> returns 57.
\<close>

theorem getProgress_23_of_40:
  "getProgress sprint = 57 \<and> half_up_percent 23 40 = 58"
  by (simp add: getProgress_def sprint_counts fdiv_23_40 fmul_23_40_100 Math_round_def
      half_up_percent_def)

section \<open>Day numbers and calendar dates\<close>

text \<open>Division by a constant, one step at a time.\<close>

lemma div_succ:
  fixes x k :: int
  assumes "0 < k"
  shows "(x + 1) div k = x div k + (if (x + 1) mod k = 0 then 1 else 0)"
proof (cases "x mod k = k - 1")
  case True
  have "x + 1 = k * (x div k + 1) + 0"
    using mult_div_mod_eq [of k x] True by (simp add: ring_distribs)
  then have d: "(x + 1) div k = x div k + 1" and m: "(x + 1) mod k = 0"
    using assms int_div_pos_eq [of "x + 1" k "x div k + 1" 0]
      int_mod_pos_eq [of "x + 1" k "x div k + 1" 0] by simp_all
  then show ?thesis by simp
next
  case False
  have r: "0 < x mod k + 1" "x mod k + 1 < k"
    using False pos_mod_sign [OF assms, of x] pos_mod_bound [OF assms, of x] by linarith+
  have "x + 1 = k * (x div k) + (x mod k + 1)"
    using mult_div_mod_eq [of k x] by simp
  then have d: "(x + 1) div k = x div k" and m: "(x + 1) mod k = x mod k + 1"
    using r int_div_pos_eq [of "x + 1" k "x div k" "x mod k + 1"]
      int_mod_pos_eq [of "x + 1" k "x div k" "x mod k + 1"] by simp_all
  with r show ?thesis by simp
qed

lemma step4: "(y - 1968) div 4 = (y - 1969) div 4 + (if y mod 4 = 0 then 1 else 0)" for y :: int
proof -
  have "(y - 1968) mod 4 = (y + 4 * (- 492)) mod 4" by simp
  also have "\<dots> = y mod 4" by (rule mod_mult_self2)
  finally show ?thesis
    using div_succ [of 4 "y - 1969"] by simp
qed

lemma step100:
  "(y - 1900) div 100 = (y - 1901) div 100 + (if y mod 100 = 0 then 1 else 0)" for y :: int
proof -
  have "(y - 1900) mod 100 = (y + 100 * (- 19)) mod 100" by simp
  also have "\<dots> = y mod 100" by (rule mod_mult_self2)
  finally show ?thesis
    using div_succ [of 100 "y - 1901"] by simp
qed

lemma step400:
  "(y - 1600) div 400 = (y - 1601) div 400 + (if y mod 400 = 0 then 1 else 0)" for y :: int
proof -
  have "(y - 1600) mod 400 = (y + 400 * (- 4)) mod 400" by simp
  also have "\<dots> = y mod 400" by (rule mod_mult_self2)
  finally show ?thesis
    using div_succ [of 400 "y - 1601"] by simp
qed

lemma mod_chain: "y mod 400 = 0 \<Longrightarrow> y mod 100 = 0" "y mod 100 = 0 \<Longrightarrow> y mod 4 = 0" for y :: int
proof -
  have a: "y mod 400 mod 100 = y mod 100" by (rule mod_mod_cancel) simp
  have b: "y mod 100 mod 4 = y mod 4" by (rule mod_mod_cancel) simp
  show "y mod 400 = 0 \<Longrightarrow> y mod 100 = 0" using a by simp
  show "y mod 100 = 0 \<Longrightarrow> y mod 4 = 0" using b by simp
qed

lemma lin_lower:
  "146097 * q \<le> 400 * d \<Longrightarrow> 4 * a \<le> q \<Longrightarrow> q + 68 < 100 * b + 100 \<Longrightarrow> 400 * c \<le> q + 368
    \<Longrightarrow> 365 * (q - 1) + a - b + c \<le> (d::int)"
  unfolding ring_distribs by linarith

lemma lin_upper:
  "400 * d < 146097 * q + 146097 \<Longrightarrow> q + 3 < 4 * a + 4 \<Longrightarrow> 100 * b \<le> q + 71 \<Longrightarrow>
   q + 371 < 400 * c + 400 \<Longrightarrow> d < 365 * (q + 2) + a - b + (c::int)"
  unfolding ring_distribs by linarith

text \<open>A year is as long as \<open>DaysInYear\<close> says, so \<open>DayFromYear\<close> grows with the year.\<close>

lemma DayFromYear_Suc: "DayFromYear (y + 1) = DayFromYear y + DaysInYear y"
proof -
  have a: "y + 1 - 1969 = y - 1968" "y + 1 - 1901 = y - 1900" "y + 1 - 1601 = y - 1600"
    by simp_all
  show ?thesis
    unfolding DayFromYear_def DaysInYear_def a step4 step100 step400
    using mod_chain [of y]
    by (cases "y mod 4 = 0"; cases "y mod 100 = 0"; cases "y mod 400 = 0") simp_all
qed

lemma DaysInYear_ge: "365 \<le> DaysInYear y"
  by (simp add: DaysInYear_def)

lemma DayFromYear_steps: "0 \<le> n \<Longrightarrow> DayFromYear y + 365 * n \<le> DayFromYear (y + n)"
proof (induction n rule: int_ge_induct)
  case base
  then show ?case by simp
next
  case (step i)
  have "DayFromYear (y + (i + 1)) = DayFromYear (y + i) + DaysInYear (y + i)"
    using DayFromYear_Suc [of "y + i"] by (simp add: add.assoc)
  with step DaysInYear_ge [of "y + i"] show ?case
    unfolding ring_distribs by linarith
qed

lemma DayFromYear_mono: "y \<le> y' \<Longrightarrow> DayFromYear y \<le> DayFromYear y'"
  using DayFromYear_steps [of "y' - y" y] by simp

text \<open>
  \<open>YearFromDay\<close> is the \<open>YearFromTime\<close> of the ECMAScript specification: the year in
  which the day lies, and the only such year.
\<close>

lemma DayFromYear_lower: "DayFromYear (1970 + (400 * d) div 146097 - 1) \<le> d"
proof -
  define q where "q = (400 * d) div 146097"
  have e: "1970 + q - 1 - 1970 = q - 1" "1970 + q - 1 - 1969 = q" "1970 + q - 1 - 1901 = q + 68"
    "1970 + q - 1 - 1601 = q + 368"
    by simp_all
  have 1: "146097 * q \<le> 400 * d"
    unfolding q_def by (rule div_lo) simp
  have 2: "4 * (q div 4) \<le> q"
    by (rule div_lo) simp
  have 3: "q + 68 < 100 * ((q + 68) div 100) + 100"
    by (rule div_hi) simp
  have 4: "400 * ((q + 368) div 400) \<le> q + 368"
    by (rule div_lo) simp
  show ?thesis
    unfolding DayFromYear_def q_def [symmetric] e by (rule lin_lower [OF 1 2 3 4])
qed

lemma DayFromYear_upper: "d < DayFromYear (1970 + (400 * d) div 146097 + 2)"
proof -
  define q where "q = (400 * d) div 146097"
  have e: "1970 + q + 2 - 1970 = q + 2" "1970 + q + 2 - 1969 = q + 3"
    "1970 + q + 2 - 1901 = q + 71" "1970 + q + 2 - 1601 = q + 371"
    by simp_all
  have 1: "400 * d < 146097 * q + 146097"
    unfolding q_def by (rule div_hi) simp
  have 2: "q + 3 < 4 * ((q + 3) div 4) + 4"
    by (rule div_hi) simp
  have 3: "100 * ((q + 71) div 100) \<le> q + 71"
    by (rule div_lo) simp
  have 4: "q + 371 < 400 * ((q + 371) div 400) + 400"
    by (rule div_hi) simp
  show ?thesis
    unfolding DayFromYear_def q_def [symmetric] e by (rule lin_upper [OF 1 2 3 4])
qed

lemma YearFromDay_bounds:
  "DayFromYear (YearFromDay d) \<le> d \<and> d < DayFromYear (YearFromDay d + 1)"
proof -
  define e where "e = 1970 + (400 * d) div 146097"
  have lo: "DayFromYear (e - 1) \<le> d"
    unfolding e_def by (rule DayFromYear_lower)
  have hi: "d < DayFromYear (e + 2)"
    unfolding e_def by (rule DayFromYear_upper)
  have s: "e - 1 + 1 = e" "e + 1 + 1 = e + 2"
    by simp_all
  show ?thesis
    unfolding YearFromDay_def e_def [symmetric] Let_def
    using lo hi by (simp add: s)
qed

lemma YearFromDay_unique:
  assumes "DayFromYear y \<le> d" "d < DayFromYear (y + 1)"
  shows "YearFromDay d = y"
proof (rule ccontr)
  assume ne: "YearFromDay d \<noteq> y"
  note b = YearFromDay_bounds [of d]
  show False
  proof (cases "YearFromDay d < y")
    case True
    then have "DayFromYear (YearFromDay d + 1) \<le> DayFromYear y"
      by (intro DayFromYear_mono) simp
    with b assms show False by linarith
  next
    case False
    with ne have "DayFromYear (y + 1) \<le> DayFromYear (YearFromDay d)"
      by (intro DayFromYear_mono) simp
    with b assms show False by linarith
  qed
qed

lemma DaysInYear_leap: "DaysInYear y = (if isLeapYear y then 366 else 365)"
  unfolding DaysInYear_def isLeapYear_def
  using mod_chain [of y]
  by (cases "y mod 4 = 0"; cases "y mod 100 = 0"; cases "y mod 400 = 0") simp_all

text \<open>
  The getters invert \<open>MakeDay\<close> on the dates of the calendar: month index 0 to 11 and a
  day from 1 to the length of the month.
\<close>

lemma month_cases:
  "0 \<le> m \<Longrightarrow> m \<le> 11 \<Longrightarrow>
   m = 0 \<or> m = 1 \<or> m = 2 \<or> m = 3 \<or> m = 4 \<or> m = 5 \<or> m = 6 \<or> m = 7 \<or> m = 8 \<or> m = 9 \<or> m = 10
     \<or> m = (11::int)"
proof -
  assume "0 \<le> m" "m \<le> 11"
  then have "m \<in> set [0..11]" by simp
  also have "[0..11] = [0, 1, 2, 3, 4, 5, 6, 7, 8, 9, 10, 11::int]" by code_simp
  finally show ?thesis by simp
qed

lemma monthLength_range: "28 \<le> monthLength y m \<and> monthLength y m \<le> 31"
  by (simp add: monthLength_def)

lemma monthLength_feb: "monthLength y 1 = 28 + (if isLeapYear y then 1 else 0)"
  by (simp add: monthLength_def)

lemma MakeDay_month:
  "0 \<le> m \<Longrightarrow> m \<le> 11 \<Longrightarrow>
   MakeDay y m dt = DayFromYear y + monthStart m (if isLeapYear y then 1 else 0) + dt - 1"
  by (simp add: MakeDay_def DaysInYear_leap)

lemma monthStart_next:
  "0 \<le> m \<Longrightarrow> m \<le> 10 \<Longrightarrow>
   monthStart (m + 1) l = monthStart m l + (if m = 1 then 28 + l else monthLength y m)"
  using month_cases [of m] by (auto simp add: monthStart_def monthLength_def)

lemma monthStart_range:
  assumes "0 \<le> m" "m \<le> 11" "1 \<le> dt" "dt \<le> monthLength y m"
  shows "0 \<le> monthStart m (if isLeapYear y then 1 else 0) + dt - 1
       \<and> monthStart m (if isLeapYear y then 1 else 0) + dt - 1 < DaysInYear y"
  using month_cases [OF assms(1,2)] assms(3,4)
  by (elim disjE; cases "isLeapYear y")
    (simp_all add: monthStart_def monthLength_def DaysInYear_leap)

lemma MakeDay_within_year:
  assumes "0 \<le> m" "m \<le> 11" "1 \<le> dt" "dt \<le> monthLength y m"
  shows "DayFromYear y \<le> MakeDay y m dt \<and> MakeDay y m dt < DayFromYear (y + 1)"
  using monthStart_range [OF assms] by (simp add: MakeDay_month assms DayFromYear_Suc)

lemma YearFromDay_MakeDay:
  assumes "0 \<le> m" "m \<le> 11" "1 \<le> dt" "dt \<le> monthLength y m"
  shows "YearFromDay (MakeDay y m dt) = y"
  using MakeDay_within_year [OF assms] by (intro YearFromDay_unique) simp_all

lemma DayWithinYear_MakeDay:
  assumes "0 \<le> m" "m \<le> 11" "1 \<le> dt" "dt \<le> monthLength y m"
  shows "DayWithinYear (MakeDay y m dt) = monthStart m (if isLeapYear y then 1 else 0) + dt - 1"
proof -
  have "DayWithinYear (MakeDay y m dt) = MakeDay y m dt - DayFromYear y"
    by (simp add: DayWithinYear_def YearFromDay_MakeDay [OF assms])
  then show ?thesis
    by (simp add: MakeDay_month assms)
qed

lemma InLeapYear_MakeDay:
  assumes "0 \<le> m" "m \<le> 11" "1 \<le> dt" "dt \<le> monthLength y m"
  shows "InLeapYear (MakeDay y m dt) = (if isLeapYear y then 1 else 0)"
  by (simp add: InLeapYear_def YearFromDay_MakeDay [OF assms] DaysInYear_leap)

lemma MonthFromDay_MakeDay:
  assumes "0 \<le> m" "m \<le> 11" "1 \<le> dt" "dt \<le> monthLength y m"
  shows "MonthFromDay (MakeDay y m dt) = m"
  unfolding MonthFromDay_def DayWithinYear_MakeDay [OF assms] InLeapYear_MakeDay [OF assms] Let_def
  using month_cases [OF assms(1,2)] assms(3,4)
  by (elim disjE; cases "isLeapYear y") (simp_all add: monthStart_def monthLength_def)

lemma DateFromDay_MakeDay:
  assumes "0 \<le> m" "m \<le> 11" "1 \<le> dt" "dt \<le> monthLength y m"
  shows "DateFromDay (MakeDay y m dt) = dt"
  unfolding DateFromDay_def DayWithinYear_MakeDay [OF assms] InLeapYear_MakeDay [OF assms] Let_def
    MonthFromDay_MakeDay [OF assms]
  using month_cases [OF assms(1,2)]
  by (elim disjE; cases "isLeapYear y") (simp_all add: monthStart_def)

text \<open>
  So \<open>MakeDay\<close> is the \<open>MakeDay\<close> of the ECMAScript specification for all integer
  arguments: the day of the first of the month is the day whose year is
  \<open>year + month div 12\<close>, whose month is \<open>month mod 12\<close> and whose date is 1, and the
  result lies \<open>date - 1\<close> days after it.
\<close>

lemma MakeDay_finds_first:
  "YearFromDay (MakeDay year month 1) = year + month div 12 \<and>
   MonthFromDay (MakeDay year month 1) = month mod 12 \<and>
   DateFromDay (MakeDay year month 1) = 1 \<and>
   MakeDay year month date = MakeDay year month 1 + date - 1"
proof -
  define ym where "ym = year + month div 12"
  define mn where "mn = month mod 12"
  have mn: "0 \<le> mn" "mn \<le> 11"
    by (simp_all add: mn_def)
  have one: "(1::int) \<le> 1" "1 \<le> monthLength ym mn"
    using monthLength_range [of ym mn] by simp_all
  have n: "MakeDay year month dt = MakeDay ym mn dt" for dt
    using mn by (simp add: MakeDay_def ym_def [symmetric] mn_def [symmetric])
  have s: "MakeDay ym mn date = MakeDay ym mn 1 + date - 1"
    by (simp add: MakeDay_def Let_def)
  show ?thesis
    unfolding n ym_def [symmetric] mn_def [symmetric]
    using YearFromDay_MakeDay [OF mn one] MonthFromDay_MakeDay [OF mn one]
      DateFromDay_MakeDay [OF mn one] s
    by simp
qed

text \<open>The getters stay in their ranges on every day number.\<close>

lemma WeekDay_range: "0 \<le> WeekDay d \<and> WeekDay d \<le> 6"
  by (simp add: WeekDay_def)

lemma WeekDay_next: "WeekDay (d + 1) = (WeekDay d + 1) mod 7"
  by (simp add: WeekDay_def mod_simps add.commute add.left_commute)

lemma DayWithinYear_range:
  "0 \<le> DayWithinYear d \<and> DayWithinYear d < DaysInYear (YearFromDay d)"
  using YearFromDay_bounds [of d] DayFromYear_Suc [of "YearFromDay d"]
  by (simp add: DayWithinYear_def)

lemma DateFromDay_range: "1 \<le> DateFromDay d \<and> DateFromDay d \<le> 31"
proof -
  define w where "w = DayWithinYear d"
  define y where "y = YearFromDay d"
  have r: "0 \<le> w" "w < DaysInYear y"
    using DayWithinYear_range [of d] by (simp_all add: w_def y_def)
  show ?thesis
  proof (cases "isLeapYear y")
    case True
    then have l: "InLeapYear d = 1" and n: "w < 366"
      using r by (simp_all add: InLeapYear_def y_def [symmetric] DaysInYear_leap)
    show ?thesis
      unfolding DateFromDay_def MonthFromDay_def w_def [symmetric] l Let_def
      using r(1) n by simp
  next
    case False
    then have l: "InLeapYear d = 0" and n: "w < 365"
      using r by (simp_all add: InLeapYear_def y_def [symmetric] DaysInYear_leap)
    show ?thesis
      unfolding DateFromDay_def MonthFromDay_def w_def [symmetric] l Let_def
      using r(1) n by simp
  qed
qed

text \<open>
  Day numbers count the days of the calendar one by one: the next day of a month has the
  next number, and day 0 of a month, the day before its first, is the last day of the
  month before it. With \<open>WeekDay_next\<close> and one known date (\<open>known_dates\<close>: 1 January
  1970 was a Thursday) this fixes the weekday of every date.
\<close>

lemma MakeDay_succ: "MakeDay y m (dt + 1) = MakeDay y m dt + 1"
  by (simp add: MakeDay_def Let_def)


lemma MakeDay_day_zero: "MakeDay y m 0 = MakeDay y m 1 - 1"
  by (simp add: MakeDay_def Let_def)

lemma MakeDay_next_zero:
  assumes "0 \<le> m" "m \<le> 11"
  shows "MakeDay y (m + 1) 0 = MakeDay y m (monthLength y m)"
proof (cases "m = 11")
  case True
  have "MakeDay y 12 0 = DayFromYear (y + 1) - 1"
    by (simp add: MakeDay_def monthStart_def)
  also have "\<dots> = DayFromYear y + DaysInYear y - 1"
    by (simp add: DayFromYear_Suc)
  also have "\<dots> = MakeDay y 11 (monthLength y 11)"
    by (simp add: MakeDay_month DaysInYear_leap monthStart_def monthLength_def)
  finally show ?thesis
    using True by simp
next
  case False
  with assms have b: "0 \<le> m + 1" "m + 1 \<le> 11" "m \<le> 10"
    by simp_all
  show ?thesis
    unfolding MakeDay_month [OF b(1,2)] MakeDay_month [OF assms]
      monthStart_next [OF assms(1) b(3), of _ y]
    by (simp add: monthLength_feb)
qed

lemma MakeDay_prev_last:
  assumes "0 \<le> m" "m \<le> 11"
  shows "MakeDay y m 0 =
           MakeDay (if m = 0 then y - 1 else y) (if m = 0 then 11 else m - 1) (prevMonthLength y m)"
proof (cases "m = 0")
  case True
  have "MakeDay y 0 0 = DayFromYear y - 1"
    by (simp add: MakeDay_def monthStart_def)
  also have "\<dots> = DayFromYear (y - 1) + DaysInYear (y - 1) - 1"
    using DayFromYear_Suc [of "y - 1"] by simp
  also have "\<dots> = MakeDay (y - 1) 11 (monthLength (y - 1) 11)"
    by (simp add: MakeDay_month DaysInYear_leap monthStart_def monthLength_def)
  finally show ?thesis
    using True by (simp add: prevMonthLength_def)
next
  case False
  with assms have b: "0 \<le> m - 1" "m - 1 \<le> 11"
    by simp_all
  show ?thesis
    using MakeDay_next_zero [OF b, of y] False by (simp add: prevMonthLength_def)
qed

lemma DateFromDay_prev_last:
  assumes "0 \<le> m" "m \<le> 11"
  shows "DateFromDay (MakeDay y m 0) = prevMonthLength y m"
proof -
  have r: "1 \<le> prevMonthLength y m"
    using monthLength_range [of "y - 1" 11] monthLength_range [of y "m - 1"]
    by (simp add: prevMonthLength_def)
  have "DateFromDay (MakeDay (if m = 0 then y - 1 else y) (if m = 0 then 11 else m - 1)
          (prevMonthLength y m)) = prevMonthLength y m"
    using assms r by (intro DateFromDay_MakeDay) (auto simp add: prevMonthLength_def)
  then show ?thesis
    by (simp only: MakeDay_prev_last [OF assms])
qed









text \<open>Every day of a year in range, and the day before its first, is a valid date.\<close>

lemma DayFromYear_low: "DayFromYear (- 271820) = - 99999744"
  by (simp add: DayFromYear_def)

lemma DayFromYear_high: "DayFromYear 275760 = 99999744"
  by (simp add: DayFromYear_def)

lemma TimeClip_in_range:
  assumes "yearInRange y" "DayFromYear y - 1 \<le> d" "d < DayFromYear (y + 1)"
  shows "TimeClip d = Some d"
proof -
  have "DayFromYear (- 271820) \<le> DayFromYear y"
    using assms(1) by (intro DayFromYear_mono) (simp add: yearInRange_def)
  moreover have "DayFromYear (y + 1) \<le> DayFromYear 275760"
    using assms(1) by (intro DayFromYear_mono) (simp add: yearInRange_def)
  ultimately have "- 100000000 \<le> d \<and> d \<le> 100000000"
    using assms(2,3) unfolding DayFromYear_low DayFromYear_high by linarith
  then show ?thesis
    by (simp add: TimeClip_def abs_if)
qed

lemma MakeFullYear_in_range: "yearInRange y \<Longrightarrow> yearInRange (MakeFullYear y)"
  by (auto simp add: yearInRange_def MakeFullYear_def)

lemma MakeFullYear_plainYear: "plainYear y \<Longrightarrow> MakeFullYear y = y"
  by (auto simp add: plainYear_def MakeFullYear_def)

lemma newDate_valid:
  assumes "0 \<le> m" "m \<le> 11" "1 \<le> dt" "dt \<le> monthLength (MakeFullYear y) m" "yearInRange y"
  shows "newDate y m dt = Some (MakeDay (MakeFullYear y) m dt)"
  using MakeDay_within_year [OF assms(1-4)]
  by (simp add: newDate_def TimeClip_in_range [OF MakeFullYear_in_range [OF assms(5)]])

lemma newDate_fields:
  assumes "0 \<le> m" "m \<le> 11" "1 \<le> dt" "dt \<le> monthLength (MakeFullYear y) m" "yearInRange y"
  shows "getFullYear (newDate y m dt) = Some (MakeFullYear y) \<and>
         getMonth (newDate y m dt) = Some m \<and> getDate (newDate y m dt) = Some dt"
  by (simp add: newDate_valid [OF assms] getFullYear_def getMonth_def getDate_def
      YearFromDay_MakeDay [OF assms(1-4)] MonthFromDay_MakeDay [OF assms(1-4)]
      DateFromDay_MakeDay [OF assms(1-4)])

lemma known_dates:
  "newDate 1970 0 1 = Some 0"
  "getDay (newDate 1970 0 1) = Some 4"
  "getDay (newDate 2000 1 29) = Some 2"
  "getDay (newDate 2025 0 1) = Some 3"
  "getDate (newDate 2024 2 0) = Some 29"
  "getDate (newDate 1900 2 0) = Some 28"
  "getFullYear (newDate 50 0 1) = Some 1950"
  "newDate 275760 8 13 = Some 100000000"
  "newDate 275760 8 14 = None"
  "newDate (- 271821) 3 20 = Some (- 100000000)"
  "newDate (- 271821) 3 19 = None"
  by code_simp+

section \<open>The month grid\<close>

declare prevMonthDays.simps [simp del] currentMonthDays.simps [simp del]
  nextMonthDays.simps [simp del]

lemma prevMonthDays_map:
  "prevMonthDays i dp month year days = days @ map (leadingCell dp month year) (rev [0..i])"
proof (induction i dp month year days rule: prevMonthDays.induct)
  case (1 i dp month year days)
  show ?case
  proof (cases "0 \<le> i")
    case True
    then have "rev [0..i] = i # rev [0..i - 1]"
      by (simp add: upto_rec2)
    with True "1.IH" show ?thesis
      by (subst prevMonthDays.simps) (simp add: leadingCell_def)
  next
    case False
    then show ?thesis
      by (subst prevMonthDays.simps) simp
  qed
qed

lemma currentMonthDays_map:
  "currentMonthDays i n month year days = days @ map (currentCell month year) [i..n]"
proof (induction i n month year days rule: currentMonthDays.induct)
  case (1 i n month year days)
  show ?case
  proof (cases "i \<le> n")
    case True
    then have "[i..n] = i # [i + 1..n]"
      by (simp add: upto_rec1)
    with True "1.IH" show ?thesis
      by (subst currentMonthDays.simps) (simp add: currentCell_def)
  next
    case False
    then show ?thesis
      by (subst currentMonthDays.simps) simp
  qed
qed

lemma nextMonthDays_map:
  "nextMonthDays i n month year days = days @ map (trailingCell month year) [i..n]"
proof (induction i n month year days rule: nextMonthDays.induct)
  case (1 i n month year days)
  show ?case
  proof (cases "i \<le> n")
    case True
    then have "[i..n] = i # [i + 1..n]"
      by (simp add: upto_rec1)
    with True "1.IH" show ?thesis
      by (subst nextMonthDays.simps) (simp add: trailingCell_def)
  next
    case False
    then show ?thesis
      by (subst nextMonthDays.simps) simp
  qed
qed

text \<open>
  The grid has 42 cells for all arguments, also where a \<^verbatim>\<open>Date\<close> is invalid: the first
  two loops push at most 6 and 31 cells and the third fills up.
\<close>

lemma getMonthData_length: "length (getMonthData y m) = 42"
proof -
  define d1 where "d1 = (case getDay (newDate y m 1) of None \<Rightarrow> []
     | Some f \<Rightarrow> prevMonthDays (f - 1) (getDate (newDate y m 0)) m y [])"
  define d2 where "d2 = (case getDate (newDate y (m + 1) 0) of None \<Rightarrow> d1
     | Some n \<Rightarrow> currentMonthDays 1 n m y d1)"
  have w: "nat (WeekDay d) \<le> 6" for d
    using WeekDay_range [of d] by linarith
  have t: "nat (DateFromDay d) \<le> 31" for d
    using DateFromDay_range [of d] by linarith
  have 1: "length d1 \<le> 6"
    by (auto simp add: d1_def getDay_def prevMonthDays_map w split: option.splits)
  have "length d2 \<le> length d1 + 31"
    by (auto simp add: d2_def getDate_def currentMonthDays_map t split: option.splits)
  with 1 have 2: "length d2 \<le> 42"
    by simp
  have "getMonthData y m = nextMonthDays 1 (42 - int (length d2)) m y d2"
    unfolding getMonthData_def d2_def d1_def Let_def by (rule refl)
  with 2 show ?thesis
    by (simp add: nextMonthDays_map)
qed

text \<open>
  The cells of the grid, for a month index from 0 to 11 and a year in range. The lengths
  are those of the year that the \<^verbatim>\<open>Date\<close> constructor makes of \<open>y\<close>; the cells carry
  \<open>y\<close> and \<open>m\<close> as \<open>getMonthData\<close> computes them.
\<close>

lemma getMonthData_cells:
  assumes "0 \<le> m" "m \<le> 11" "yearInRange y"
  shows "getMonthData y m =
           map (leadingCell (Some (prevMonthLength (MakeFullYear y) m)) m y)
             (rev [0..WeekDay (MakeDay (MakeFullYear y) m 1) - 1])
           @ map (currentCell m y) [1..monthLength (MakeFullYear y) m]
           @ map (trailingCell m y)
               [1..42 - WeekDay (MakeDay (MakeFullYear y) m 1) - monthLength (MakeFullYear y) m]"
proof -
  define Y where "Y = MakeFullYear y"
  define k where "k = WeekDay (MakeDay Y m 1)"
  define n where "n = monthLength Y m"
  have Y: "yearInRange Y"
    unfolding Y_def by (rule MakeFullYear_in_range [OF assms(3)])
  have k: "0 \<le> k" "k \<le> 6"
    using WeekDay_range [of "MakeDay Y m 1"] by (simp_all add: k_def)
  have n: "28 \<le> n" "n \<le> 31"
    using monthLength_range [of Y m] by (simp_all add: n_def)
  have first: "DayFromYear Y \<le> MakeDay Y m 1 \<and> MakeDay Y m 1 < DayFromYear (Y + 1)"
    using n by (intro MakeDay_within_year assms) (simp_all add: n_def)
  have last: "DayFromYear Y \<le> MakeDay Y m n \<and> MakeDay Y m n < DayFromYear (Y + 1)"
    using n by (intro MakeDay_within_year assms) (simp_all add: n_def)
  have f: "getDay (newDate y m 1) = Some k"
    using first
    by (simp add: newDate_def Y_def [symmetric] TimeClip_in_range [OF Y] getDay_def k_def)
  have l: "getDate (newDate y (m + 1) 0) = Some n"
    using last n
    by (simp add: newDate_def Y_def [symmetric] MakeDay_next_zero [OF assms(1,2)]
        n_def [symmetric] TimeClip_in_range [OF Y] getDate_def
        DateFromDay_MakeDay [OF assms(1,2), of n Y, unfolded n_def [symmetric]])
  have p: "getDate (newDate y m 0) = Some (prevMonthLength Y m)"
    using first
    by (simp add: newDate_def Y_def [symmetric] MakeDay_day_zero TimeClip_in_range [OF Y]
        getDate_def DateFromDay_prev_last [OF assms(1,2), unfolded MakeDay_day_zero])
  have len: "42 - int (length (map (leadingCell (Some (prevMonthLength Y m)) m y) (rev [0..k - 1])
                @ map (currentCell m y) [1..n])) = 42 - k - n"
    using k n by simp
  show ?thesis
    unfolding getMonthData_def Let_def f l p option.case prevMonthDays_map currentMonthDays_map
      nextMonthDays_map append_Nil len
    by (simp add: k_def n_def Y_def)
qed




lemma map_upto_shift: "map f [a + c..b + c] = map (\<lambda>j. f (j + c)) [a..b]"
proof (induction a b rule: upto.induct)
  case (1 a b)
  show ?case
  proof (cases "a \<le> b")
    case True
    have s: "a + c + 1 = a + 1 + c"
      by simp
    from True "1.IH" show ?thesis
      by (simp add: upto_rec1 [of a b] upto_rec1 [of "a + c" "b + c"] s)
  next
    case False
    then show ?thesis by simp
  qed
qed

lemma rev_upto: "rev [a..b] = map (\<lambda>j. a + b - j) [a..b]"
proof (induction a b rule: upto.induct)
  case (1 a b)
  show ?case
  proof (cases "a \<le> b")
    case True
    have "rev [a..b] = rev [a + 1..b] @ [a]"
      using True by (simp add: upto_rec1 [of a b])
    also have "rev [a + 1..b] = map (\<lambda>j. a + 1 + b - j) [a + 1..b]"
      using True by (rule "1.IH")
    also have "\<dots> = map (\<lambda>j. a + b - j) [a..b - 1]"
      using map_upto_shift [of "\<lambda>j. a + 1 + b - j" a 1 "b - 1"] by simp
    also have "\<dots> @ [a] = map (\<lambda>j. a + b - j) [a..b]"
      using True by (simp add: upto_rec2 [of a b])
    finally show ?thesis .
  next
    case False
    then show ?thesis by simp
  qed
qed

lemma MakeDay_date: "MakeDay y m dt = MakeDay y m 0 + dt"
  by (simp add: MakeDay_def Let_def)

text \<open>
  For the months February to November the cells are the 42 consecutive days that start
  \<open>WeekDay\<close> days before the first of the month: \<open>cellDate\<close> of the cell at position
  \<open>j\<close> is that day plus \<open>j\<close>. There the year and the month index of every cell are
  resolved. (January and December are the subject of C3 below.)
\<close>

lemma getMonthData_dates:
  assumes "1 \<le> m" "m \<le> 10" "plainYear y"
  shows "map cellDate (getMonthData y m) =
           map (\<lambda>j. Some (MakeDay y m 1 - WeekDay (MakeDay y m 1) + j)) [0..41]"
proof -
  define F where "F = MakeDay y m 1"
  define k where "k = WeekDay F"
  define n where "n = monthLength y m"
  define P where "P = monthLength y (m - 1)"
  have m: "0 \<le> m" "m \<le> 11" "0 \<le> m - 1" "m - 1 \<le> 11" "0 \<le> m + 1" "m + 1 \<le> 11"
    using assms(1,2) by simp_all
  have r: "yearInRange y" and Y: "MakeFullYear y = y"
    using assms(3) by (simp_all add: plainYear_def MakeFullYear_plainYear)
  have k: "0 \<le> k" "k \<le> 6"
    using WeekDay_range [of F] by (simp_all add: k_def)
  have n: "28 \<le> n" "n \<le> 31"
    using monthLength_range [of y m] by (simp_all add: n_def)
  have P: "28 \<le> P" "P \<le> 31"
    using monthLength_range [of y "m - 1"] by (simp_all add: P_def)
  have N: "28 \<le> monthLength y (m + 1)"
    using monthLength_range [of y "m + 1"] by simp
  have pl: "prevMonthLength y m = P"
    using assms(1) by (simp add: prevMonthLength_def P_def)
  have z: "MakeDay y m 0 = F - 1"
    by (simp add: F_def MakeDay_day_zero)
  have lead: "cellDate (leadingCell (Some P) m y i) = Some (F - 1 - i)" if "0 \<le> i" "i \<le> k - 1" for i
  proof -
    have v: "1 \<le> P - i" "P - i \<le> monthLength (MakeFullYear y) (m - 1)"
      using that k P by (simp_all add: Y P_def)
    have "MakeDay y (m - 1) (P - i) = MakeDay y (m - 1) P - i"
      by (simp add: MakeDay_def Let_def)
    also have "MakeDay y (m - 1) P = MakeDay y m 0"
      using MakeDay_next_zero [OF m(3,4), of y] by (simp add: P_def)
    finally have "MakeDay y (m - 1) (P - i) = F - 1 - i"
      by (simp add: z)
    then show ?thesis
      using assms(1) newDate_valid [OF m(3,4) v r]
      by (simp add: cellDate_def leadingCell_def Y)
  qed
  have cur: "cellDate (currentCell m y i) = Some (F - 1 + i)" if "1 \<le> i" "i \<le> n" for i
  proof -
    have v: "1 \<le> i" "i \<le> monthLength (MakeFullYear y) m"
      using that by (simp_all add: Y n_def)
    show ?thesis
      using newDate_valid [OF m(1,2) v r] MakeDay_date [of y m i]
      by (simp add: cellDate_def currentCell_def Y z)
  qed
  have trail: "cellDate (trailingCell m y i) = Some (F - 1 + n + i)" if "1 \<le> i" "i \<le> 42 - k - n" for i
  proof -
    have v: "1 \<le> i" "i \<le> monthLength (MakeFullYear y) (m + 1)"
      using that k n N by (simp_all add: Y)
    have "MakeDay y (m + 1) i = MakeDay y (m + 1) 0 + i"
      by (rule MakeDay_date)
    also have "MakeDay y (m + 1) 0 = MakeDay y m 0 + n"
      using MakeDay_next_zero [OF m(1,2), of y] MakeDay_date [of y m n] by (simp add: n_def)
    finally have "MakeDay y (m + 1) i = F - 1 + n + i"
      by (simp add: z)
    then show ?thesis
      using assms(2) newDate_valid [OF m(5,6) v r]
      by (simp add: cellDate_def trailingCell_def Y)
  qed
  let ?g = "\<lambda>j. Some (F - k + j)"
  have L: "map cellDate (map (leadingCell (Some P) m y) (rev [0..k - 1])) = map ?g [0..k - 1]"
    unfolding rev_upto map_map
    by (rule map_cong [OF refl]) (simp add: lead)
  have C: "map cellDate (map (currentCell m y) [1..n]) = map ?g [k..k + n - 1]"
  proof -
    have "map ?g [k..k + n - 1] = map (\<lambda>j. ?g (j + (k - 1))) [1..n]"
      using map_upto_shift [of ?g 1 "k - 1" n] by (simp add: algebra_simps)
    also have "\<dots> = map cellDate (map (currentCell m y) [1..n])"
      unfolding map_map by (rule map_cong [OF refl]) (simp add: cur)
    finally show ?thesis by simp
  qed
  have T: "map cellDate (map (trailingCell m y) [1..42 - k - n]) = map ?g [k + n..41]"
  proof -
    have "map ?g [k + n..41] = map (\<lambda>j. ?g (j + (k + n - 1))) [1..42 - k - n]"
      using map_upto_shift [of ?g 1 "k + n - 1" "42 - k - n"] by (simp add: algebra_simps)
    also have "\<dots> = map cellDate (map (trailingCell m y) [1..42 - k - n])"
      unfolding map_map by (rule map_cong [OF refl]) (simp add: trail)
    finally show ?thesis by simp
  qed
  have "[0..41] = [0..k - 1] @ [k..k + n - 1] @ [k + n..41]"
    using k n upto_split1 [of 0 k 41] upto_split1 [of k "k + n" 41] by simp
  then show ?thesis
    unfolding getMonthData_cells [OF m(1,2) r] Y pl F_def [symmetric] k_def [symmetric]
      n_def [symmetric] map_append L C T
    by simp
qed

text \<open>
  C3 at a failing input. January 2025 starts on a Wednesday, so its grid has three
  leading cells, 29 to 31 December 2024. They carry the year 2024 and the month index
  \<open>- 1\<close>: the year is rolled back and the month index is not resolved to 11. The triple
  is not the date of the cell: \<^verbatim>\<open>new Date(2024, -1, 29)\<close>, as \<^verbatim>\<open>renderCalendar\<close>
  builds it from the cell, is 29 December 2023, while the three days before 1 January
  2025 are 29 to 31 December 2024. In the same way the ten trailing cells of December
  2025 carry the year 2026 and the month index 12, which \<^verbatim>\<open>Date\<close> resolves to January
  2027, while the days after 31 December 2025 are those of January 2026.
\<close>

theorem getMonthData_january_leading_cells:
  "take 3 (getMonthData 2025 0) =
     [\<lparr>c_day = Some 29, c_month = - 1, c_year = 2024, c_isCurrentMonth = False\<rparr>,
      \<lparr>c_day = Some 30, c_month = - 1, c_year = 2024, c_isCurrentMonth = False\<rparr>,
      \<lparr>c_day = Some 31, c_month = - 1, c_year = 2024, c_isCurrentMonth = False\<rparr>] \<and>
   map cellDate (take 3 (getMonthData 2025 0))
     = [newDate 2023 11 29, newDate 2023 11 30, newDate 2023 11 31] \<and>
   map (\<lambda>j. map_option (\<lambda>d. d - 3 + j) (newDate 2025 0 1)) [0, 1, 2]
     = [newDate 2024 11 29, newDate 2024 11 30, newDate 2024 11 31] \<and>
   newDate 2023 11 29 \<noteq> newDate 2024 11 29 \<and>
   drop 32 (getMonthData 2025 11) =
     map (\<lambda>i. \<lparr>c_day = Some i, c_month = 12, c_year = 2026, c_isCurrentMonth = False\<rparr>) [1..10] \<and>
   map cellDate (drop 32 (getMonthData 2025 11)) = map (\<lambda>i. newDate 2027 0 i) [1..10] \<and>
   map (\<lambda>j. map_option (\<lambda>d. d + 31 + j) (newDate 2025 11 1)) [0..9]
     = map (\<lambda>i. newDate 2026 0 i) [1..10]"
  by code_simp

end
